theory Spec2Isabelle
  imports Main "HOL-Library.Word"
begin

unbundle bit_operations_syntax

section \<open>Results of the Go functions\<close>

text \<open>
  A Go function of the package returns a value together with an \<open>error\<close>, or panics at
  run time (an index or a slice bound out of range). The three outcomes are kept apart.
  \<open>ForeignError\<close> stands for the errors of functions from outside the package.
\<close>

datatype error =
    ErrInvalidNamespaceName
  | ErrNamespaceTooManyPart
  | ErrWrongBitNamespaceId
  | ErrInvalidAddress
  | CorruptInputError nat
  | InvalidByteError char
  | ErrLength
  | ForeignError string

datatype runtime_panic = IndexOutOfRange | SliceBoundsOutOfRange

datatype 'a result = Ok 'a | Err error | Panic runtime_panic

type_synonym byte = "8 word"

section \<open>Namespace identifiers (namespace\_model.go)\<close>

text \<open>\<open>const NamespaceBit uint64 = 1 << 63\<close>\<close>

definition NamespaceBit :: "64 word" where
  "NamespaceBit = push_bit 63 1"

text \<open>\<open>type NamespaceId struct { baseInt64 }\<close>: a wrapper of one 64-bit value.\<close>

datatype NamespaceId = NamespaceId (Id: "64 word")

text \<open>
  Modelled from the spec: \<open>hasBits\<close> is called by \<open>NewNamespaceId\<close> and defined
  elsewhere in the package. The specification says that \<open>NewNamespaceId\<close> "rejects any nonzero
  value whose bit 63 is unset", the guard being \<open>!hasBits(id, NamespaceBit)\<close>: so
  \<open>hasBits number bits\<close> holds when every bit of \<open>bits\<close> is set in \<open>number\<close>.
\<close>

definition hasBits :: "64 word \<Rightarrow> 64 word \<Rightarrow> bool" where
  "hasBits number bits \<longleftrightarrow> number AND bits = bits"

definition NewNamespaceIdNoCheck :: "64 word \<Rightarrow> NamespaceId" where
  "NewNamespaceIdNoCheck idv = NamespaceId idv"

definition NewNamespaceId :: "64 word \<Rightarrow> NamespaceId result" where
  "NewNamespaceId idv =
     (if idv \<noteq> 0 \<and> \<not> hasBits idv NamespaceBit then Err ErrWrongBitNamespaceId
      else Ok (NewNamespaceIdNoCheck idv))"

subsection \<open>Namespace paths\<close>

text \<open>
  \<open>strings.Split(s, sep)\<close> for a separator of one byte: the substrings between the
  separators, one more than there are separators; the empty string gives one empty
  substring.
\<close>

fun Split :: "string \<Rightarrow> char \<Rightarrow> string list" where
  "Split [] sep = [[]]"
| "Split (c # cs) sep =
     (if c = sep then [] # Split cs sep
      else (case Split cs sep of
              [] \<Rightarrow> [[c]]
            | p # ps \<Rightarrow> (c # p) # ps))"

text \<open>
  The loop of \<open>GenerateNamespacePath\<close> over the parts, with the loop variables
  \<open>namespaceId\<close> and \<open>path\<close>. The grammar \<open>regValidNamespace\<close> and the derivation
  \<open>generateNamespaceId\<close> are defined elsewhere in the package and are parameters.
\<close>

fun GenerateNamespacePath_loop ::
  "(string \<Rightarrow> bool) \<Rightarrow> (string \<Rightarrow> NamespaceId \<Rightarrow> NamespaceId result) \<Rightarrow>
   string list \<Rightarrow> NamespaceId \<Rightarrow> NamespaceId list \<Rightarrow> NamespaceId list result" where
  "GenerateNamespacePath_loop regValidNamespace generateNamespaceId [] namespaceId path = Ok path"
| "GenerateNamespacePath_loop regValidNamespace generateNamespaceId (part # parts) namespaceId path =
     (if \<not> regValidNamespace part then Err ErrInvalidNamespaceName
      else (case generateNamespaceId part namespaceId of
              Err e \<Rightarrow> Err e
            | Panic p \<Rightarrow> Panic p
            | Ok namespaceId' \<Rightarrow>
                GenerateNamespacePath_loop regValidNamespace generateNamespaceId parts
                  namespaceId' (path @ [namespaceId'])))"

definition GenerateNamespacePath ::
  "(string \<Rightarrow> bool) \<Rightarrow> (string \<Rightarrow> NamespaceId \<Rightarrow> NamespaceId result) \<Rightarrow>
   string \<Rightarrow> NamespaceId list result" where
  "GenerateNamespacePath regValidNamespace generateNamespaceId name =
     (let parts = Split name (CHR ''.'') in
      if length parts = 0 then Err ErrInvalidNamespaceName
      else if length parts > 3 then Err ErrNamespaceTooManyPart
      else GenerateNamespacePath_loop regValidNamespace generateNamespaceId parts
             (NewNamespaceIdNoCheck 0) [])"

section \<open>Library functions the address code calls\<close>

subsection \<open>Package strings\<close>

text \<open>
  \<open>strings.Replace(s, old, new, -1)\<close> for an \<open>old\<close> of one byte: every occurrence is
  replaced.
\<close>

definition Replace :: "string \<Rightarrow> char \<Rightarrow> string \<Rightarrow> string" where
  "Replace s old new = concat (map (\<lambda>c. if c = old then new else [c]) s)"

text \<open>
  \<open>strings.ToUpper\<close> on ASCII text maps the bytes \<open>a\<close> to \<open>z\<close> to \<open>A\<close> to \<open>Z\<close> and
  keeps every other byte. (On text with bytes beyond ASCII the library maps Unicode code
  points; address text is base32 text, and the properties below that depend on
  \<open>ToUpper\<close> take ASCII text.)
\<close>

definition isASCII :: "string \<Rightarrow> bool" where
  "isASCII s = list_all (\<lambda>c. (of_char c :: nat) < 128) s"

definition toUpperByte :: "char \<Rightarrow> char" where
  "toUpperByte c =
     (let n = (of_char c :: nat) in if 97 \<le> n \<and> n \<le> 122 then char_of (n - 32) else c)"

definition ToUpper :: "string \<Rightarrow> string" where
  "ToUpper s = map toUpperByte s"

text \<open>\<open>strings.Repeat(s, count)\<close>\<close>

definition Repeat :: "string \<Rightarrow> nat \<Rightarrow> string" where
  "Repeat s count = concat (replicate count s)"

text \<open>
  A slice expression \<open>s[lo:hi]\<close> on a string panics unless \<open>lo \<le> hi \<le> len(s)\<close>.
\<close>

definition slice :: "'a list \<Rightarrow> nat \<Rightarrow> nat \<Rightarrow> 'a list result" where
  "slice s lo hi =
     (if lo \<le> hi \<and> hi \<le> length s then Ok (take (hi - lo) (drop lo s))
      else Panic SliceBoundsOutOfRange)"

subsection \<open>Package fmt and encoding/binary\<close>

definition upperhex :: string where
  "upperhex = ''0123456789ABCDEF''"

text \<open>\<open>fmt.Sprintf("%X", n)\<close> for an \<open>int\<close> that is not negative.\<close>

function Sprintf_X :: "nat \<Rightarrow> string" where
  "Sprintf_X n = (if n < 16 then [upperhex ! n] else Sprintf_X (n div 16) @ [upperhex ! (n mod 16)])"
  by pat_completeness auto
termination
  by (relation "measure id") auto

declare Sprintf_X.simps [simp del]

text \<open>\<open>binary.LittleEndian.PutUint64(b, v)\<close> on a fresh buffer of 8 bytes.\<close>

definition PutUint64 :: "64 word \<Rightarrow> byte list" where
  "PutUint64 v = map (\<lambda>i. ucast (drop_bit (8 * i) v)) [0..<8]"

subsection \<open>Package encoding/hex\<close>

definition hextable :: string where
  "hextable = ''0123456789abcdef''"

definition hex_EncodeToString :: "byte list \<Rightarrow> string" where
  "hex_EncodeToString src =
     concat (map (\<lambda>v. [hextable ! unat (drop_bit 4 v), hextable ! unat (v AND 0x0f)]) src)"

definition fromHexChar :: "char \<Rightarrow> byte option" where
  "fromHexChar c =
     (let n = (of_char c :: nat) in
      if 48 \<le> n \<and> n \<le> 57 then Some (of_nat (n - 48))
      else if 97 \<le> n \<and> n \<le> 102 then Some (of_nat (n - 97 + 10))
      else if 65 \<le> n \<and> n \<le> 70 then Some (of_nat (n - 65 + 10))
      else None)"

text \<open>
  \<open>hex.DecodeString\<close>: two digits a byte; a byte that is no hexadecimal digit gives
  \<open>InvalidByteError\<close>, an odd length \<open>ErrLength\<close>.
\<close>

fun hex_DecodeString :: "string \<Rightarrow> byte list result" where
  "hex_DecodeString [] = Ok []"
| "hex_DecodeString [c] =
     (case fromHexChar c of None \<Rightarrow> Err (InvalidByteError c) | Some a \<Rightarrow> Err ErrLength)"
| "hex_DecodeString (c1 # c2 # cs) =
     (case fromHexChar c1 of
        None \<Rightarrow> Err (InvalidByteError c1)
      | Some a \<Rightarrow>
          (case fromHexChar c2 of
             None \<Rightarrow> Err (InvalidByteError c2)
           | Some b \<Rightarrow>
               (case hex_DecodeString cs of
                  Ok bs \<Rightarrow> Ok ((push_bit 4 a OR b) # bs)
                | Err e \<Rightarrow> Err e
                | Panic p \<Rightarrow> Panic p)))"

subsection \<open>Package encoding/base32, the standard encoding\<close>

definition encodeStd :: string where
  "encodeStd = ''ABCDEFGHIJKLMNOPQRSTUVWXYZ234567''"

definition StdPadding :: char where
  "StdPadding = CHR ''=''"

text \<open>The character of a 5-bit block: \<open>enc.encode[b&31]\<close>.\<close>

definition encodeChar :: "byte \<Rightarrow> char" where
  "encodeChar b = encodeStd ! unat (b AND 31)"

text \<open>
  The eight 5-bit blocks of a quantum of five bytes. For a last quantum of fewer bytes the
  library leaves out the contributions of the bytes that are missing, which is what a
  zero byte contributes.
\<close>

definition blocks :: "byte \<Rightarrow> byte \<Rightarrow> byte \<Rightarrow> byte \<Rightarrow> byte \<Rightarrow> byte list" where
  "blocks s0 s1 s2 s3 s4 =
     [drop_bit 3 s0,
      (push_bit 2 s0 AND 0x1F) OR (drop_bit 6 s1 AND 0x1F),
      drop_bit 1 s1 AND 0x1F,
      (push_bit 4 s1 AND 0x1F) OR (drop_bit 4 s2 AND 0x1F),
      (push_bit 1 s2 AND 0x1F) OR drop_bit 7 s3,
      drop_bit 2 s3 AND 0x1F,
      (push_bit 3 s3 AND 0x1F) OR drop_bit 5 s4,
      s4 AND 0x1F]"

text \<open>
  \<open>EncodeToString\<close>: eight characters for every five bytes; a last quantum of 4, 3, 2 or 1
  bytes gives 7, 5, 4 or 2 characters and is padded to eight.
\<close>

fun base32_EncodeToString :: "byte list \<Rightarrow> string" where
  "base32_EncodeToString [] = []"
| "base32_EncodeToString [s0] =
     take 2 (map encodeChar (blocks s0 0 0 0 0)) @ replicate 6 StdPadding"
| "base32_EncodeToString [s0, s1] =
     take 4 (map encodeChar (blocks s0 s1 0 0 0)) @ replicate 4 StdPadding"
| "base32_EncodeToString [s0, s1, s2] =
     take 5 (map encodeChar (blocks s0 s1 s2 0 0)) @ replicate 3 StdPadding"
| "base32_EncodeToString [s0, s1, s2, s3] =
     take 7 (map encodeChar (blocks s0 s1 s2 s3 0)) @ replicate 1 StdPadding"
| "base32_EncodeToString (s0 # s1 # s2 # s3 # s4 # src) =
     map encodeChar (blocks s0 s1 s2 s3 s4) @ base32_EncodeToString src"

text \<open>
  The decode map sends a character of the alphabet to its index and every other byte to
  \<open>0xFF\<close>, here \<open>None\<close>.
\<close>

fun indexOf :: "'a list \<Rightarrow> 'a \<Rightarrow> nat option" where
  "indexOf [] c = None"
| "indexOf (x # xs) c = (if x = c then Some 0 else map_option Suc (indexOf xs c))"

definition decodeMap :: "char \<Rightarrow> byte option" where
  "decodeMap c = map_option of_nat (indexOf encodeStd c)"

text \<open>
  The bytes of a quantum of \<open>dlen\<close> blocks (\<open>dbuf\<close> is an array of eight bytes, zero
  where no block was read): 5, 4, 3, 2 or 1 bytes for 8, 7, 5, 4 or 2 blocks.
\<close>

definition pack :: "byte list \<Rightarrow> byte list" where
  "pack blks =
     (let dlen = length blks;
          dbuf = blks @ replicate (8 - dlen) 0;
          n = (if dlen = 8 then 5 else if dlen = 7 then 4 else if dlen = 5 then 3
               else if dlen = 4 then 2 else if dlen = 2 then 1 else 0)
      in take n
           [push_bit 3 (dbuf ! 0) OR drop_bit 2 (dbuf ! 1),
            push_bit 6 (dbuf ! 1) OR push_bit 1 (dbuf ! 2) OR drop_bit 4 (dbuf ! 3),
            push_bit 4 (dbuf ! 3) OR drop_bit 1 (dbuf ! 4),
            push_bit 7 (dbuf ! 4) OR push_bit 2 (dbuf ! 5) OR drop_bit 3 (dbuf ! 6),
            push_bit 5 (dbuf ! 6) OR (dbuf ! 7)])"

text \<open>
  The decoding loops of the library, as one recursion over the source: \<open>dbuf\<close> holds the
  blocks of the quantum being read (\<open>j = length dbuf\<close>), \<open>olen\<close> is the length of the
  whole source. A quantum ends after eight blocks, or at a padding character that comes
  after at least two blocks with fewer than eight bytes left; the source ending inside a
  quantum is an error, since the standard encoding pads. The number in
  \<open>CorruptInputError\<close> is the offset the library reports.
\<close>

fun decode :: "nat \<Rightarrow> string \<Rightarrow> byte list \<Rightarrow> byte list result" where
  "decode olen [] dbuf =
     (if dbuf = [] then Ok [] else Err (CorruptInputError (olen - length dbuf)))"
| "decode olen (inp # src) dbuf =
     (let j = length dbuf in
      if inp = StdPadding \<and> 2 \<le> j \<and> length src < 8 then
        (if length src + j < 8 - 1 then Err (CorruptInputError olen)
         else
           (case find (\<lambda>k. k < length src \<and> src ! k \<noteq> StdPadding) [0..<8 - 1 - j] of
              Some k \<Rightarrow> Err (CorruptInputError (olen - length src + k - 1))
            | None \<Rightarrow>
                if j = 1 \<or> j = 3 \<or> j = 6 then Err (CorruptInputError (olen - length src - 1))
                else Ok (pack dbuf)))
      else
        (case decodeMap inp of
           None \<Rightarrow> Err (CorruptInputError (olen - length src - 1))
         | Some d \<Rightarrow>
             if j + 1 = 8 then
               (case decode olen src [] of
                  Ok bs \<Rightarrow> Ok (pack (dbuf @ [d]) @ bs)
                | Err e \<Rightarrow> Err e
                | Panic p \<Rightarrow> Panic p)
             else decode olen src (dbuf @ [d])))"

text \<open>\<open>DecodeString\<close> drops carriage returns and line feeds, then decodes.\<close>

definition base32_DecodeString :: "string \<Rightarrow> byte list result" where
  "base32_DecodeString s =
     (let buf = filter (\<lambda>c. c \<noteq> CHR 0x0D \<and> c \<noteq> CHR 0x0A) s
      in decode (length buf) buf [])"

section \<open>Addresses (account\_model.go)\<close>

text \<open>
  \<open>NetworkType\<close> is a byte-sized type defined elsewhere in the package, and so is the
  table \<open>addressNet\<close> from version bytes to network types: the table is a parameter of
  the functions that read it.
\<close>

type_synonym NetworkType = byte

record Address =
  Type :: NetworkType
  Address :: string

text \<open>
  \<open>Pretty\<close>: the loop appends the six blocks \<open>Address[i*6 : i*6+6]\<close>, each followed by a
  dash; then the last four bytes are appended.
\<close>

fun Pretty_loop :: "string \<Rightarrow> nat list \<Rightarrow> string \<Rightarrow> string result" where
  "Pretty_loop a [] res = Ok res"
| "Pretty_loop a (i # is) res =
     (case slice a (i * 6) (i * 6 + 6) of
        Ok blk \<Rightarrow> Pretty_loop a is (res @ blk @ ''-'')
      | Err e \<Rightarrow> Err e
      | Panic p \<Rightarrow> Panic p)"

definition Pretty :: "Address \<Rightarrow> string result" where
  "Pretty ad =
     (case Pretty_loop (Address ad) [0..<6] [] of
        Ok res \<Rightarrow>
          (if length (Address ad) < 4 then Panic SliceBoundsOutOfRange
           else (case slice (Address ad) (length (Address ad) - 4) (length (Address ad)) of
                   Ok tail \<Rightarrow> Ok (res @ tail)
                 | Err e \<Rightarrow> Err e
                 | Panic p \<Rightarrow> Panic p))
      | Err e \<Rightarrow> Err e
      | Panic p \<Rightarrow> Panic p)"

definition NewAddress :: "string \<Rightarrow> NetworkType \<Rightarrow> Address" where
  "NewAddress address networkType =
     (let address1 = Replace address (CHR ''-'') '''';
          address2 = ToUpper address1
      in \<lparr>Type = networkType, Address = address2\<rparr>)"

text \<open>
  \<open>NewAddressFromRaw\<close> decodes the text as it is given, reads \<open>pH[0]\<close> (a run-time panic
  when \<open>pH\<close> is empty) and looks it up in the table.
\<close>

definition NewAddressFromRaw :: "(byte \<rightharpoonup> NetworkType) \<Rightarrow> string \<Rightarrow> Address result" where
  "NewAddressFromRaw addressNet address =
     (case base32_DecodeString address of
        Err err \<Rightarrow> Err err
      | Panic p \<Rightarrow> Panic p
      | Ok pH \<Rightarrow>
          (case pH of
             [] \<Rightarrow> Panic IndexOutOfRange
           | pH0 # _ \<Rightarrow>
               (case addressNet pH0 of
                  Some nType \<Rightarrow> Ok (NewAddress address nType)
                | None \<Rightarrow> Err ErrInvalidAddress)))"

definition NewAddressFromEncoded :: "(byte \<rightharpoonup> NetworkType) \<Rightarrow> string \<Rightarrow> Address result" where
  "NewAddressFromEncoded addressNet encoded =
     (case hex_DecodeString encoded of
        Err err \<Rightarrow> Err err
      | Panic p \<Rightarrow> Panic p
      | Ok pH \<Rightarrow> NewAddressFromRaw addressNet (base32_EncodeToString pH))"

text \<open>
  \<open>GenerateChecksum\<close>. The hash \<open>crypto.HashesSha3_256\<close> belongs to another module and is
  a parameter. \<open>NUM_CHECKSUM_BYTES\<close> is 4; the slice expression panics on a digest shorter
  than that (a digest is taken to have no spare capacity).
\<close>

definition NUM_CHECKSUM_BYTES :: nat where
  "NUM_CHECKSUM_BYTES = 4"

definition GenerateChecksum :: "(byte list \<Rightarrow> byte list result) \<Rightarrow> byte list \<Rightarrow> byte list result" where
  "GenerateChecksum HashesSha3_256 b =
     (case HashesSha3_256 b of
        Err err \<Rightarrow> Err err
      | Panic p \<Rightarrow> Panic p
      | Ok sha3StepThreeHash \<Rightarrow> slice sha3StepThreeHash 0 NUM_CHECKSUM_BYTES)"

section \<open>Alias addresses (namespace\_model.go)\<close>

text \<open>
  Modelled from the spec: the constant \<open>AliasAddress\<close> is defined elsewhere in the
  package. The specification calls it "the fixed alias-address version byte", and the comment
  in \<open>NewAddressFromNamespace\<close> gives its value:
  \<open>0x91 | namespaceId on 8 bytes | 16 bytes 0-pad = 25 bytes\<close>.
\<close>

definition AliasAddress :: NetworkType where
  "AliasAddress = 0x91"

text \<open>
  Modelled from the spec: \<open>NewAddressFromBase32\<close> is called by \<open>NewAddressFromNamespace\<close>
  and defined elsewhere in the package. The specification has the alias address
  "concatenate to 25 bytes; base32-encode", and has every address parsed from text go
  through the lookup of its leading byte in the version table. The function takes the
  payload in hexadecimal, so it is modelled as \<open>NewAddressFromEncoded\<close>, which does
  exactly these steps: decode the hexadecimal text, base32-encode the bytes, parse.
\<close>

definition NewAddressFromBase32 :: "(byte \<rightharpoonup> NetworkType) \<Rightarrow> string \<Rightarrow> Address result" where
  "NewAddressFromBase32 addressNet encoded = NewAddressFromEncoded addressNet encoded"

text \<open>
  The text that \<open>NewAddressFromNamespace\<close> builds in its variable \<open>a\<close>: the version in
  upper-case hexadecimal, the identifier in little-endian order in lower-case hexadecimal,
  and sixteen times \<open>00\<close>.
\<close>

definition NewAddressFromNamespace_a :: "NamespaceId \<Rightarrow> string" where
  "NewAddressFromNamespace_a namespaceId =
     (let a = Sprintf_X (unat AliasAddress);
          namespaceB = PutUint64 (Id namespaceId);
          a = a @ hex_EncodeToString namespaceB;
          a = a @ Repeat ''00'' 16
      in a)"

definition NewAddressFromNamespace :: "(byte \<rightharpoonup> NetworkType) \<Rightarrow> NamespaceId \<Rightarrow> Address result" where
  "NewAddressFromNamespace addressNet namespaceId =
     NewAddressFromBase32 addressNet (NewAddressFromNamespace_a namespaceId)"

text \<open>
  The bytes that the normalisation of address text leaves alone and that the base32
  decoder does not drop: no carriage return, no line feed, no dash, no lower-case letter.
\<close>

definition plain :: "char \<Rightarrow> bool" where
  "plain c \<longleftrightarrow> c \<noteq> CHR 0x0D \<and> c \<noteq> CHR 0x0A \<and> c \<noteq> CHR ''-'' \<and> toUpperByte c = c"

text \<open>
  The canonical text of an address: 40 characters of the base32 alphabet, which is what
  25 bytes encode to.
\<close>

definition canonical :: "string \<Rightarrow> bool" where
  "canonical a \<longleftrightarrow> length a = 40 \<and> list_all (\<lambda>c. c \<in> set encodeStd) a"

text \<open>
  A valid address text for a version table: canonical, and the first of the bytes it
  decodes to is a version byte of the table.
\<close>

definition validAddress :: "(byte \<rightharpoonup> NetworkType) \<Rightarrow> string \<Rightarrow> bool" where
  "validAddress addressNet c \<longleftrightarrow>
     canonical c \<and>
     (case base32_DecodeString c of
        Ok (pH0 # pH') \<Rightarrow> addressNet pH0 \<noteq> None
      | _ \<Rightarrow> False)"

section \<open>Properties of the namespace identifiers\<close>

lemma Split_length: "length (Split s sep) = Suc (count_list s sep)"
  by (induction s) (auto split: list.splits)

lemma Split_not_Nil: "Split s sep \<noteq> []"
  using Split_length [of s sep] by auto

lemma and_single_bit_iff:
  fixes w :: "'a::len word"
  assumes "n < LENGTH('a)"
  shows "w AND push_bit n 1 = push_bit n 1 \<longleftrightarrow> bit w n"
proof
  assume "w AND push_bit n 1 = push_bit n 1"
  then have "bit (w AND push_bit n 1) n = bit (push_bit n 1 :: 'a word) n"
    by simp
  then show "bit w n"
    using assms by (simp add: bit_and_iff bit_exp_iff)
next
  assume "bit w n"
  then show "w AND push_bit n 1 = push_bit n 1"
    by (intro bit_word_eqI) (auto simp: bit_and_iff bit_exp_iff)
qed

lemma hasBits_NamespaceBit: "hasBits idv NamespaceBit \<longleftrightarrow> bit idv 63"
  unfolding hasBits_def NamespaceBit_def by (rule and_single_bit_iff) simp

text \<open>
  The loop appends one identifier per part, each derived from the part and the identifier
  before it (the first from the identifier the loop was entered with), and it passes only
  parts that match the grammar.
\<close>

lemma GenerateNamespacePath_loop_chain:
  "GenerateNamespacePath_loop v g parts nid path = Ok res \<Longrightarrow>
   \<exists>new. res = path @ new \<and> length new = length parts \<and> (\<forall>p\<in>set parts. v p) \<and>
     (\<forall>i<length parts. g (parts ! i) (if i = 0 then nid else new ! (i - 1)) = Ok (new ! i))"
proof (induction parts arbitrary: nid path)
  case Nil
  then show ?case by simp
next
  case (Cons part parts)
  from Cons.prems have valid: "v part"
    by (auto split: if_splits)
  from Cons.prems valid obtain nid' where
    g: "g part nid = Ok nid'" and
    rest: "GenerateNamespacePath_loop v g parts nid' (path @ [nid']) = Ok res"
    by (auto split: result.splits)
  from Cons.IH [OF rest] obtain new where
    new: "res = (path @ [nid']) @ new" "length new = length parts" "\<forall>p\<in>set parts. v p"
      "\<forall>i<length parts. g (parts ! i) (if i = 0 then nid' else new ! (i - 1)) = Ok (new ! i)"
    by blast
  have "\<forall>i<length (part # parts).
          g ((part # parts) ! i) (if i = 0 then nid else (nid' # new) ! (i - 1)) = Ok ((nid' # new) ! i)"
  proof (intro allI impI)
    fix i assume i: "i < length (part # parts)"
    show "g ((part # parts) ! i) (if i = 0 then nid else (nid' # new) ! (i - 1)) = Ok ((nid' # new) ! i)"
    proof (cases i)
      case 0
      then show ?thesis using g by simp
    next
      case (Suc k)
      then have "k < length parts" using i by simp
      with new(4) have "g (parts ! k) (if k = 0 then nid' else new ! (k - 1)) = Ok (new ! k)"
        by blast
      then show ?thesis using Suc by (cases k) simp_all
    qed
  qed
  with new valid show ?case
    by (intro exI [of _ "nid' # new"]) simp
qed

text \<open>
  When the derivation never fails, every name of at most three segments that all match
  the grammar is accepted.
\<close>

lemma GenerateNamespacePath_loop_total:
  assumes "\<forall>s p. \<exists>n. g s p = Ok n" and "\<forall>part\<in>set parts. v part"
  shows "\<exists>res. GenerateNamespacePath_loop v g parts nid path = Ok res"
  using assms(2)
proof (induction parts arbitrary: nid path)
  case Nil
  show ?case by simp
next
  case (Cons part parts)
  from assms(1) obtain n where n: "g part nid = Ok n" by blast
  from Cons.prems have "v part" and rest: "\<forall>part\<in>set parts. v part" by simp_all
  from Cons.IH [OF rest, of n "path @ [n]"] obtain res where
    "GenerateNamespacePath_loop v g parts n (path @ [n]) = Ok res" by blast
  with \<open>v part\<close> n show ?case by simp
qed

lemma GenerateNamespacePath_accepts:
  assumes "\<forall>s p. \<exists>n. generateNamespaceId s p = Ok n"
    and "length (Split name (CHR ''.'')) \<le> 3"
    and "\<forall>part\<in>set (Split name (CHR ''.'')). regValidNamespace part"
  shows "\<exists>path. GenerateNamespacePath regValidNamespace generateNamespaceId name = Ok path"
  using GenerateNamespacePath_loop_total [OF assms(1,3)] assms(2) Split_not_Nil [of name "CHR ''.''"]
  by (simp add: GenerateNamespacePath_def Let_def)

text \<open>
  C1. Whenever \<open>GenerateNamespacePath\<close> accepts a name, the name has one to three
  dot-separated segments, each matching the grammar; the returned list has one identifier
  per segment, in segment order; element 0 is \<open>generateNamespaceId\<close> of segment 0 and the
  sentinel identifier 0, and every later element \<open>i\<close> is \<open>generateNamespaceId\<close> of
  segment \<open>i\<close> and element \<open>i - 1\<close>. This holds for every grammar and every derivation
  function.
\<close>

theorem GenerateNamespacePath_chain:
  assumes "GenerateNamespacePath regValidNamespace generateNamespaceId name = Ok path"
  shows "length path = length (Split name (CHR ''.'')) \<and> 1 \<le> length path \<and> length path \<le> 3 \<and>
         (\<forall>part \<in> set (Split name (CHR ''.'')). regValidNamespace part) \<and>
         generateNamespaceId (Split name (CHR ''.'') ! 0) (NewNamespaceIdNoCheck 0) = Ok (path ! 0) \<and>
         (\<forall>i. 1 \<le> i \<and> i < length path \<longrightarrow>
            generateNamespaceId (Split name (CHR ''.'') ! i) (path ! (i - 1)) = Ok (path ! i))"
proof -
  let ?parts = "Split name (CHR ''.'')"
  have ne: "?parts \<noteq> []" by (rule Split_not_Nil)
  from assms have le: "length ?parts \<le> 3"
    and loop: "GenerateNamespacePath_loop regValidNamespace generateNamespaceId ?parts
                 (NewNamespaceIdNoCheck 0) [] = Ok path"
    by (auto simp: GenerateNamespacePath_def Let_def split: if_splits)
  from GenerateNamespacePath_loop_chain [OF loop] obtain new where
    new: "path = new" "length new = length ?parts" "\<forall>p\<in>set ?parts. regValidNamespace p"
      "\<forall>i<length ?parts. generateNamespaceId (?parts ! i)
          (if i = 0 then NewNamespaceIdNoCheck 0 else new ! (i - 1)) = Ok (new ! i)"
    by auto
  have len: "length path = length ?parts" using new by simp
  have pos: "0 < length ?parts" using ne by simp
  have first: "generateNamespaceId (?parts ! 0) (NewNamespaceIdNoCheck 0) = Ok (path ! 0)"
    using new(4) pos new(1) by force
  have later: "\<forall>i. 1 \<le> i \<and> i < length path \<longrightarrow>
            generateNamespaceId (?parts ! i) (path ! (i - 1)) = Ok (path ! i)"
    using new(4) new(1) len by force
  show ?thesis using len pos le new(3) first later by (simp add: Suc_le_eq)
qed

text \<open>
  The theorem at the name \<open>ab.c.def\<close>, with a grammar that accepts the non-empty
  segments and a derivation that adds the segment's length to the parent and sets the
  namespace bit.
\<close>

theorem GenerateNamespacePath_chain_witness:
  "GenerateNamespacePath (\<lambda>s. s \<noteq> [])
      (\<lambda>s p. Ok (NamespaceId ((Id p + of_nat (length s)) OR NamespaceBit))) ''ab.c.def''
    = Ok [NamespaceId (2 OR NamespaceBit), NamespaceId ((2 OR NamespaceBit) + 1 OR NamespaceBit),
          NamespaceId ((((2 OR NamespaceBit) + 1 OR NamespaceBit) + 3) OR NamespaceBit)] \<and>
   length [NamespaceId (2 OR NamespaceBit), NamespaceId ((2 OR NamespaceBit) + 1 OR NamespaceBit),
          NamespaceId ((((2 OR NamespaceBit) + 1 OR NamespaceBit) + 3) OR NamespaceBit)]
     = length (Split ''ab.c.def'' (CHR ''.''))"
  using GenerateNamespacePath_chain [of "\<lambda>s. s \<noteq> []"
      "\<lambda>s p. Ok (NamespaceId ((Id p + of_nat (length s)) OR NamespaceBit))" "''ab.c.def''"
      "[NamespaceId (2 OR NamespaceBit), NamespaceId ((2 OR NamespaceBit) + 1 OR NamespaceBit),
          NamespaceId ((((2 OR NamespaceBit) + 1 OR NamespaceBit) + 3) OR NamespaceBit)]"]
  by (simp add: GenerateNamespacePath_def NewNamespaceIdNoCheck_def)

text \<open>
  C2. \<open>NewNamespaceId\<close> returns \<open>ErrWrongBitNamespaceId\<close> exactly when the value is
  nonzero and its bit 63 is clear; for a value with bit 63 set, and for 0, it succeeds
  and the identifier built holds the value given.
\<close>

theorem NewNamespaceId_wrong_bit:
  "(NewNamespaceId idv = Err ErrWrongBitNamespaceId \<longleftrightarrow> idv \<noteq> 0 \<and> \<not> bit idv 63) \<and>
   (bit idv 63 \<or> idv = 0 \<longrightarrow> (\<exists>n. NewNamespaceId idv = Ok n \<and> Id n = idv))"
  by (auto simp: NewNamespaceId_def NewNamespaceIdNoCheck_def hasBits_NamespaceBit)

theorem NewNamespaceId_wrong_bit_witness:
  "(NewNamespaceId 5 = Err ErrWrongBitNamespaceId) \<and>
   (\<exists>n. NewNamespaceId (push_bit 63 1 + 5) = Ok n \<and> Id n = push_bit 63 1 + 5) \<and>
   (\<exists>n. NewNamespaceId 0 = Ok n \<and> Id n = 0)"
  using NewNamespaceId_wrong_bit [of 5] NewNamespaceId_wrong_bit [of "push_bit 63 1 + 5"]
    NewNamespaceId_wrong_bit [of 0]
  by (simp add: bit_simps)

text \<open>
  C7. With a grammar that rejects the empty segment, \<open>GenerateNamespacePath\<close> fails with
  \<open>ErrInvalidNamespaceName\<close> on the empty name and on the name \<open>.\<close>, and it fails with
  \<open>ErrNamespaceTooManyPart\<close> on \<open>a.b.c.d\<close> and on every name of more than three
  dot-separated segments, whatever the segments are.
\<close>

theorem GenerateNamespacePath_rejects:
  assumes "\<not> regValidNamespace ''''"
  shows "GenerateNamespacePath regValidNamespace generateNamespaceId '''' = Err ErrInvalidNamespaceName \<and>
         GenerateNamespacePath regValidNamespace generateNamespaceId ''.'' = Err ErrInvalidNamespaceName \<and>
         GenerateNamespacePath regValidNamespace generateNamespaceId ''a.b.c.d'' = Err ErrNamespaceTooManyPart \<and>
         (\<forall>name. 3 < length (Split name (CHR ''.'')) \<longrightarrow>
            GenerateNamespacePath regValidNamespace generateNamespaceId name = Err ErrNamespaceTooManyPart)"
  using assms by (simp add: GenerateNamespacePath_def Let_def)

theorem GenerateNamespacePath_rejects_witness:
  "\<not> (\<lambda>s. s \<noteq> []) '''' \<and>
   GenerateNamespacePath (\<lambda>s. s \<noteq> [])
     (\<lambda>s p. Ok (NamespaceId ((Id p + of_nat (length s)) OR NamespaceBit))) ''''
     = Err ErrInvalidNamespaceName \<and>
   GenerateNamespacePath (\<lambda>s. s \<noteq> [])
     (\<lambda>s p. Ok (NamespaceId ((Id p + of_nat (length s)) OR NamespaceBit))) ''.''
     = Err ErrInvalidNamespaceName \<and>
   3 < length (Split ''x1.y2.z3.w4.v5'' (CHR ''.'')) \<and>
   GenerateNamespacePath (\<lambda>s. s \<noteq> [])
     (\<lambda>s p. Ok (NamespaceId ((Id p + of_nat (length s)) OR NamespaceBit))) ''x1.y2.z3.w4.v5''
     = Err ErrNamespaceTooManyPart"
proof -
  have h: "\<not> (\<lambda>s. s \<noteq> []) ''''" by simp
  have big: "3 < length (Split ''x1.y2.z3.w4.v5'' (CHR ''.''))" by simp
  show ?thesis
    using GenerateNamespacePath_rejects [of "\<lambda>s. s \<noteq> []"
        "\<lambda>s p. Ok (NamespaceId ((Id p + of_nat (length s)) OR NamespaceBit))", OF h] big
    by blast
qed

section \<open>Hexadecimal text\<close>

lemma all_below_upt: "list_all P [0..<n] \<Longrightarrow> m < n \<Longrightarrow> P m"
  by (simp add: list_all_iff)

lemma fromHexChar_hextable_all:
  "list_all (\<lambda>n. fromHexChar (hextable ! n) = Some (of_nat n)) [0..<16]"
  by code_simp

lemma fromHexChar_hextable: "n < 16 \<Longrightarrow> fromHexChar (hextable ! n) = Some (of_nat n)"
  using all_below_upt [OF fromHexChar_hextable_all] by blast

lemma byte_high_nibble: "unat (drop_bit 4 (v :: byte)) < 16"
proof -
  have "unat (drop_bit 4 v) = unat v div 16"
    by (simp add: drop_bit_eq_div unat_div)
  moreover have "unat v < 256" using unsigned_less [of v] by simp
  ultimately show ?thesis by simp
qed

lemma unat_and_mask_less: "unat ((w :: 'a::len word) AND mask n) < 2 ^ n"
proof -
  have "w AND mask n = take_bit n w"
    by (simp add: take_bit_eq_mask)
  then have "unat (w AND mask n) = take_bit n (unat w)"
    by (simp only: unsigned_take_bit_eq)
  then show ?thesis
    by (simp add: take_bit_eq_mod)
qed

lemma mask4: "(15 :: byte) = mask 4"
  by (simp add: mask_eq_exp_minus_1)

lemma byte_low_nibble: "unat ((v :: byte) AND 0x0f) < 16"
  using unat_and_mask_less [of v 4] by (simp add: mask4)

lemma byte_nibbles: "push_bit 4 (drop_bit 4 v) OR (v AND 0x0f) = (v :: byte)"
  unfolding mask4
  by (rule bit_word_eqI) (auto simp: bit_simps)

lemma hex_quantum:
  "push_bit 4 (word_of_nat (unat (drop_bit 4 v))) OR word_of_nat (unat (v AND 0x0f)) = (v :: byte)"
  using byte_nibbles [of v] by simp

lemma hex_DecodeString_EncodeToString_append:
  "hex_DecodeString (hex_EncodeToString xs @ rest) =
     (case hex_DecodeString rest of Ok bs \<Rightarrow> Ok (xs @ bs) | Err e \<Rightarrow> Err e | Panic p \<Rightarrow> Panic p)"
proof (induction xs)
  case Nil
  show ?case by (simp add: hex_EncodeToString_def split: result.splits)
next
  case (Cons v xs)
  have step: "hex_EncodeToString (v # xs) @ rest =
      hextable ! unat (drop_bit 4 v) # hextable ! unat (v AND 0x0f) # (hex_EncodeToString xs @ rest)"
    by (simp add: hex_EncodeToString_def)
  show ?case
    unfolding step
    using Cons.IH hex_quantum [of v]
    by (simp add: fromHexChar_hextable byte_high_nibble byte_low_nibble split: result.splits)
qed

lemma hex_DecodeString_EncodeToString: "hex_DecodeString (hex_EncodeToString xs) = Ok xs"
  using hex_DecodeString_EncodeToString_append [of xs "[]"] by simp

lemma Sprintf_X_AliasAddress: "Sprintf_X (unat AliasAddress) = hex_EncodeToString [AliasAddress]"
  by code_simp

lemma Repeat_zeros: "Repeat ''00'' 16 = hex_EncodeToString (replicate 16 0)"
  by code_simp

lemma NewAddressFromNamespace_a_hex:
  "NewAddressFromNamespace_a n =
     hex_EncodeToString (AliasAddress # PutUint64 (Id n) @ replicate 16 0)"
proof -
  have app: "\<And>xs ys. hex_EncodeToString (xs @ ys) = hex_EncodeToString xs @ hex_EncodeToString ys"
    by (simp add: hex_EncodeToString_def)
  have "hex_EncodeToString (AliasAddress # PutUint64 (Id n) @ replicate 16 0) =
     hex_EncodeToString [AliasAddress] @ hex_EncodeToString (PutUint64 (Id n)) @
       hex_EncodeToString (replicate 16 0)"
    using app [of "[AliasAddress]" "PutUint64 (Id n) @ replicate 16 0"]
      app [of "PutUint64 (Id n)" "replicate 16 0"] by simp
  then show ?thesis
    by (simp add: NewAddressFromNamespace_a_def Sprintf_X_AliasAddress Repeat_zeros Let_def)
qed

lemma PutUint64_bytes:
  "PutUint64 v = [ucast v, ucast (drop_bit 8 v), ucast (drop_bit 16 v), ucast (drop_bit 24 v),
     ucast (drop_bit 32 v), ucast (drop_bit 40 v), ucast (drop_bit 48 v), ucast (drop_bit 56 v)]"
  by (simp add: PutUint64_def upt_rec)

section \<open>Base32 text\<close>

lemma encodeStd_all:
  "list_all (\<lambda>n. decodeMap (encodeStd ! n) = Some (of_nat n) \<and> encodeStd ! n \<noteq> StdPadding \<and>
      plain (encodeStd ! n)) [0..<32]"
  by code_simp

lemma mask5: "(31 :: byte) = mask 5"
  by (simp add: mask_eq_exp_minus_1)

lemma unat_and_31: "unat ((b :: byte) AND 31) < 32"
  using unat_and_mask_less [of b 5] by (simp add: mask5)

lemma decodeMap_encodeChar: "decodeMap (encodeChar b) = Some (b AND 31)"
  using all_below_upt [OF encodeStd_all unat_and_31 [of b]]
  by (simp add: encodeChar_def)

lemma encodeChar_not_padding: "encodeChar b \<noteq> StdPadding"
  using all_below_upt [OF encodeStd_all unat_and_31 [of b]]
  by (simp add: encodeChar_def)

lemma plain_encodeChar: "plain (encodeChar b)"
  using all_below_upt [OF encodeStd_all unat_and_31 [of b]]
  by (simp add: encodeChar_def)

lemma plain_StdPadding: "plain StdPadding"
  by code_simp

lemma bit_times_2: "bit ((a :: byte) * 2) n \<longleftrightarrow> n \<noteq> 0 \<and> n < 8 \<and> bit a (n - 1)"
  using bit_double_iff [of a n] by (auto simp: mult.commute)

lemma Suc_numerals: "Suc (Suc 0) = 2" "Suc (Suc (Suc 0)) = 3"
  by simp_all

lemma byte_bit_cases:
  assumes "n < 8"
  obtains "n = 0" | "n = 1" | "n = 2" | "n = 3" | "n = 4" | "n = 5" | "n = 6" | "n = (7::nat)"
  using assms by linarith

lemma pack0: "push_bit 3 (drop_bit 3 s0 AND 31) OR
    drop_bit 2 (((push_bit 2 s0 AND 31) OR (drop_bit 6 s1 AND 31)) AND 31) = (s0 :: byte)"
  unfolding mask5
proof (rule bit_word_eqI)
  fix n assume "n < LENGTH(8)"
  then have "n < 8" by simp
  then show "bit (push_bit 3 (drop_bit 3 s0 AND mask 5) OR
    drop_bit 2 (((push_bit 2 s0 AND mask 5) OR (drop_bit 6 s1 AND mask 5)) AND mask 5)) n = bit s0 n"
    by (cases rule: byte_bit_cases) (simp_all add: bit_simps bit_times_2 Suc_numerals)
qed

lemma pack1: "push_bit 6 (((push_bit 2 s0 AND 31) OR (drop_bit 6 s1 AND 31)) AND 31) OR
    push_bit 1 ((drop_bit 1 s1 AND 31) AND 31) OR
    drop_bit 4 (((push_bit 4 s1 AND 31) OR (drop_bit 4 s2 AND 31)) AND 31) = (s1 :: byte)"
  unfolding mask5
proof (rule bit_word_eqI)
  fix n assume "n < LENGTH(8)"
  then have "n < 8" by simp
  then show "bit (push_bit 6 (((push_bit 2 s0 AND mask 5) OR (drop_bit 6 s1 AND mask 5)) AND mask 5) OR
    push_bit 1 ((drop_bit 1 s1 AND mask 5) AND mask 5) OR
    drop_bit 4 (((push_bit 4 s1 AND mask 5) OR (drop_bit 4 s2 AND mask 5)) AND mask 5)) n = bit s1 n"
    by (cases rule: byte_bit_cases) (simp_all add: bit_simps bit_times_2 Suc_numerals)
qed

lemma pack2: "push_bit 4 (((push_bit 4 s1 AND 31) OR (drop_bit 4 s2 AND 31)) AND 31) OR
    drop_bit 1 (((push_bit 1 s2 AND 31) OR drop_bit 7 s3) AND 31) = (s2 :: byte)"
  unfolding mask5
proof (rule bit_word_eqI)
  fix n assume "n < LENGTH(8)"
  then have "n < 8" by simp
  then show "bit (push_bit 4 (((push_bit 4 s1 AND mask 5) OR (drop_bit 4 s2 AND mask 5)) AND mask 5) OR
    drop_bit 1 (((push_bit 1 s2 AND mask 5) OR drop_bit 7 s3) AND mask 5)) n = bit s2 n"
    by (cases rule: byte_bit_cases) (simp_all add: bit_simps bit_times_2 Suc_numerals)
qed

lemma pack3: "push_bit 7 (((push_bit 1 s2 AND 31) OR drop_bit 7 s3) AND 31) OR
    push_bit 2 ((drop_bit 2 s3 AND 31) AND 31) OR
    drop_bit 3 (((push_bit 3 s3 AND 31) OR drop_bit 5 s4) AND 31) = (s3 :: byte)"
  unfolding mask5
proof (rule bit_word_eqI)
  fix n assume "n < LENGTH(8)"
  then have "n < 8" by simp
  then show "bit (push_bit 7 (((push_bit 1 s2 AND mask 5) OR drop_bit 7 s3) AND mask 5) OR
    push_bit 2 ((drop_bit 2 s3 AND mask 5) AND mask 5) OR
    drop_bit 3 (((push_bit 3 s3 AND mask 5) OR drop_bit 5 s4) AND mask 5)) n = bit s3 n"
    by (cases rule: byte_bit_cases) (simp_all add: bit_simps bit_times_2 Suc_numerals)
qed

lemma pack4: "push_bit 5 (((push_bit 3 s3 AND 31) OR drop_bit 5 s4) AND 31) OR
    ((s4 AND 31) AND 31) = (s4 :: byte)"
  unfolding mask5
proof (rule bit_word_eqI)
  fix n assume "n < LENGTH(8)"
  then have "n < 8" by simp
  then show "bit (push_bit 5 (((push_bit 3 s3 AND mask 5) OR drop_bit 5 s4) AND mask 5) OR
    ((s4 AND mask 5) AND mask 5)) n = bit s4 n"
    by (cases rule: byte_bit_cases) (simp_all add: bit_simps bit_times_2 Suc_numerals)
qed

lemma pack_eight:
  "pack [d0, d1, d2, d3, d4, d5, d6, d7] =
     [push_bit 3 d0 OR drop_bit 2 d1,
      push_bit 6 d1 OR push_bit 1 d2 OR drop_bit 4 d3,
      push_bit 4 d3 OR drop_bit 1 d4,
      push_bit 7 d4 OR push_bit 2 d5 OR drop_bit 3 d6,
      push_bit 5 d6 OR d7]"
  by (simp add: pack_def)

lemma pack_blocks:
  "pack (map (\<lambda>d. d AND 31) (blocks s0 s1 s2 s3 s4)) = [s0, s1, s2, s3, s4]"
  unfolding blocks_def list.map pack_eight pack0 pack1 pack2 pack3 pack4
  by (rule refl)

lemma decode_encodeChar:
  "decode olen (encodeChar d # src) dbuf =
     (if length dbuf = 7
      then (case decode olen src [] of
              Ok bs \<Rightarrow> Ok (pack (dbuf @ [d AND 31]) @ bs)
            | Err e \<Rightarrow> Err e
            | Panic p \<Rightarrow> Panic p)
      else decode olen src (dbuf @ [d AND 31]))"
  by (simp add: encodeChar_not_padding decodeMap_encodeChar)

lemma decode_eight:
  "decode olen (encodeChar d0 # encodeChar d1 # encodeChar d2 # encodeChar d3 # encodeChar d4 #
      encodeChar d5 # encodeChar d6 # encodeChar d7 # rest) [] =
     (case decode olen rest [] of
        Ok bs \<Rightarrow> Ok (pack [d0 AND 31, d1 AND 31, d2 AND 31, d3 AND 31, d4 AND 31, d5 AND 31,
                    d6 AND 31, d7 AND 31] @ bs)
      | Err e \<Rightarrow> Err e
      | Panic p \<Rightarrow> Panic p)"
  by (simp add: decode_encodeChar del: decode.simps split: result.splits)

lemma decode_quantum:
  "decode olen (map encodeChar (blocks s0 s1 s2 s3 s4) @ rest) [] =
     (case decode olen rest [] of
        Ok bs \<Rightarrow> Ok ([s0, s1, s2, s3, s4] @ bs)
      | Err e \<Rightarrow> Err e
      | Panic p \<Rightarrow> Panic p)"
proof -
  obtain d0 d1 d2 d3 d4 d5 d6 d7 where
    blks: "blocks s0 s1 s2 s3 s4 = [d0, d1, d2, d3, d4, d5, d6, d7]"
    by (simp add: blocks_def)
  have pk: "pack [d0 AND 31, d1 AND 31, d2 AND 31, d3 AND 31, d4 AND 31, d5 AND 31,
          d6 AND 31, d7 AND 31] = [s0, s1, s2, s3, s4]"
    using pack_blocks [of s0 s1 s2 s3 s4] blks by simp
  have "map encodeChar (blocks s0 s1 s2 s3 s4) @ rest =
      encodeChar d0 # encodeChar d1 # encodeChar d2 # encodeChar d3 # encodeChar d4 #
      encodeChar d5 # encodeChar d6 # encodeChar d7 # rest"
    using blks by simp
  then show ?thesis
    by (simp only: decode_eight pk)
qed

lemma decode_EncodeToString_append:
  "5 dvd length bs \<Longrightarrow>
   decode olen (base32_EncodeToString bs @ rest) [] =
     (case decode olen rest [] of
        Ok out \<Rightarrow> Ok (bs @ out)
      | Err e \<Rightarrow> Err e
      | Panic p \<Rightarrow> Panic p)"
proof (induction bs rule: base32_EncodeToString.induct)
  case 1
  show ?case by (simp split: result.splits)
next
  case (6 s0 s1 s2 s3 s4 src)
  have "length (s0 # s1 # s2 # s3 # s4 # src) = length src + 5" by simp
  with "6.prems" have "5 dvd length src" by (simp only: dvd_add_triv_right_iff)
  with "6.IH" have ih: "decode olen (base32_EncodeToString src @ rest) [] =
     (case decode olen rest [] of Ok out \<Rightarrow> Ok (src @ out) | Err e \<Rightarrow> Err e | Panic p \<Rightarrow> Panic p)"
    by simp
  show ?case
    using decode_quantum [of olen s0 s1 s2 s3 s4 "base32_EncodeToString src @ rest"] ih
    by (simp del: decode.simps split: result.splits)
next
  case (2 s0)
  then show ?case by simp
next
  case (3 s0 s1)
  then have "5 dvd (2 :: nat)" by (simp add: Suc_numerals)
  then show ?case by simp
next
  case (4 s0 s1 s2)
  then have "5 dvd (3 :: nat)" by (simp add: Suc_numerals)
  then show ?case by simp
next
  case (5 s0 s1 s2 s3)
  then have "5 dvd (4 :: nat)" by (simp add: numeral_eq_Suc)
  then show ?case by simp
qed

lemma plain_EncodeToString: "list_all plain (base32_EncodeToString bs)"
  by (induction bs rule: base32_EncodeToString.induct)
    (simp_all add: blocks_def plain_encodeChar plain_StdPadding list_all_iff)

lemma filter_plain: "list_all plain s \<Longrightarrow> filter (\<lambda>c. c \<noteq> CHR 0x0D \<and> c \<noteq> CHR 0x0A) s = s"
  by (induction s) (simp_all add: plain_def)

lemma Replace_plain: "list_all plain s \<Longrightarrow> Replace s (CHR ''-'') '''' = s"
  by (induction s) (simp_all add: plain_def Replace_def)

lemma ToUpper_plain: "list_all plain s \<Longrightarrow> ToUpper s = s"
  by (induction s) (simp_all add: plain_def ToUpper_def)

lemma NewAddress_plain:
  "list_all plain s \<Longrightarrow> NewAddress s nt = \<lparr>Type = nt, Address = s\<rparr>"
  by (simp add: NewAddress_def Replace_plain ToUpper_plain)

lemma base32_DecodeString_EncodeToString:
  "5 dvd length bs \<Longrightarrow> base32_DecodeString (base32_EncodeToString bs) = Ok bs"
  using decode_EncodeToString_append [of bs _ "[]"]
  by (simp add: base32_DecodeString_def filter_plain plain_EncodeToString)

section \<open>Alias addresses\<close>

lemma PutUint64_inj:
  assumes "PutUint64 v = PutUint64 w"
  shows "v = w"
proof (rule bit_word_eqI)
  fix n assume "n < LENGTH(64)"
  then have n: "n < 64" by simp
  define i where "i = n div 8"
  define k where "k = n mod 8"
  have i: "i < 8" and k: "k < 8" and nik: "n = 8 * i + k"
    using n by (simp_all add: i_def k_def less_mult_imp_div_less)
  have "PutUint64 v ! i = PutUint64 w ! i" using assms by simp
  then have "(ucast (drop_bit (8 * i) v) :: byte) = ucast (drop_bit (8 * i) w)"
    using i by (simp add: PutUint64_def)
  then have "bit (ucast (drop_bit (8 * i) v) :: byte) k = bit (ucast (drop_bit (8 * i) w) :: byte) k"
    by simp
  then show "bit v n = bit w n"
    using k nik by (simp add: bit_ucast_iff bit_drop_bit_eq)
qed

lemma length_PutUint64: "length (PutUint64 v) = 8"
  by (simp add: PutUint64_def)

lemma NewAddressFromNamespace_eq:
  "NewAddressFromNamespace addressNet n =
     (case addressNet AliasAddress of
        Some nType \<Rightarrow>
          Ok \<lparr>Type = nType,
              Address = base32_EncodeToString (AliasAddress # PutUint64 (Id n) @ replicate 16 0)\<rparr>
      | None \<Rightarrow> Err ErrInvalidAddress)"
proof -
  let ?p = "AliasAddress # PutUint64 (Id n) @ replicate 16 0"
  have len: "5 dvd length ?p" by (simp add: length_PutUint64)
  have dec: "base32_DecodeString (base32_EncodeToString ?p) = Ok ?p"
    using len by (rule base32_DecodeString_EncodeToString)
  have hex: "hex_DecodeString (NewAddressFromNamespace_a n) = Ok ?p"
    by (simp add: NewAddressFromNamespace_a_hex hex_DecodeString_EncodeToString)
  show ?thesis
    by (simp add: NewAddressFromNamespace_def NewAddressFromBase32_def NewAddressFromEncoded_def
        NewAddressFromRaw_def hex dec NewAddress_plain plain_EncodeToString split: option.splits)
qed

text \<open>
  C3. The text that \<open>NewAddressFromNamespace\<close> builds and hands on is the hexadecimal
  form of exactly 25 bytes: the version byte \<open>0x91\<close>, the eight bytes of the identifier
  with the least significant byte first, and sixteen zero bytes. Nothing else is part of
  it: no checksum is computed or appended.
\<close>

theorem NewAddressFromNamespace_layout:
  "hex_DecodeString (NewAddressFromNamespace_a n) = Ok (0x91 # PutUint64 (Id n) @ replicate 16 0) \<and>
   length (0x91 # PutUint64 (Id n) @ replicate 16 0) = 25 \<and>
   PutUint64 (Id n) =
     [ucast (Id n), ucast (drop_bit 8 (Id n)), ucast (drop_bit 16 (Id n)),
      ucast (drop_bit 24 (Id n)), ucast (drop_bit 32 (Id n)), ucast (drop_bit 40 (Id n)),
      ucast (drop_bit 48 (Id n)), ucast (drop_bit 56 (Id n))] \<and>
   NewAddressFromNamespace addressNet n =
     NewAddressFromBase32 addressNet (NewAddressFromNamespace_a n)"
  by (simp add: NewAddressFromNamespace_a_hex hex_DecodeString_EncodeToString PutUint64_bytes
      NewAddressFromNamespace_def AliasAddress_def)

theorem NewAddressFromNamespace_layout_witness:
  "hex_DecodeString (NewAddressFromNamespace_a (NamespaceId 0x8877665544332211)) =
     Ok [0x91, 0x11, 0x22, 0x33, 0x44, 0x55, 0x66, 0x77, 0x88,
         0, 0, 0, 0, 0, 0, 0, 0, 0, 0, 0, 0, 0, 0, 0, 0]"
proof -
  have le: "PutUint64 0x8877665544332211 = [0x11, 0x22, 0x33, 0x44, 0x55, 0x66, 0x77, 0x88]"
    by code_simp
  have pad: "replicate 16 (0 :: byte) = [0, 0, 0, 0, 0, 0, 0, 0, 0, 0, 0, 0, 0, 0, 0, 0]"
    by code_simp
  have "hex_DecodeString (NewAddressFromNamespace_a (NamespaceId 0x8877665544332211)) =
      Ok (0x91 # PutUint64 (Id (NamespaceId 0x8877665544332211)) @ replicate 16 0)"
    using NewAddressFromNamespace_layout [of "NamespaceId 0x8877665544332211"] by blast
  then show ?thesis
    by (simp only: NamespaceId.sel le pad append.simps)
qed

text \<open>
  C9. Two distinct namespace identifiers give two distinct 25-byte payloads, and two
  distinct address texts whenever both addresses are produced; the text of every address
  produced decodes to 25 bytes whose first is the alias version byte. (An address is
  produced when the version table knows the alias version byte.)
\<close>

theorem NewAddressFromNamespace_injective:
  "(n1 \<noteq> n2 \<longrightarrow>
      hex_DecodeString (NewAddressFromNamespace_a n1) \<noteq> hex_DecodeString (NewAddressFromNamespace_a n2) \<and>
      (\<forall>a1 a2. NewAddressFromNamespace addressNet n1 = Ok a1 \<longrightarrow>
               NewAddressFromNamespace addressNet n2 = Ok a2 \<longrightarrow> Address a1 \<noteq> Address a2)) \<and>
   (\<forall>a. NewAddressFromNamespace addressNet n1 = Ok a \<longrightarrow>
      (\<exists>rest. base32_DecodeString (Address a) = Ok (AliasAddress # rest) \<and> length rest = 24))"
proof -
  let ?p = "\<lambda>n. AliasAddress # PutUint64 (Id n) @ replicate 16 0"
  have dec: "\<And>n. base32_DecodeString (base32_EncodeToString (?p n)) = Ok (?p n)"
    by (rule base32_DecodeString_EncodeToString) (simp add: length_PutUint64)
  have hex: "\<And>n. hex_DecodeString (NewAddressFromNamespace_a n) = Ok (?p n)"
    by (simp add: NewAddressFromNamespace_a_hex hex_DecodeString_EncodeToString)
  have payload: "?p n1 \<noteq> ?p n2" if "n1 \<noteq> n2"
  proof
    assume "?p n1 = ?p n2"
    then have "PutUint64 (Id n1) = PutUint64 (Id n2)" by simp
    then have "Id n1 = Id n2" by (rule PutUint64_inj)
    with that show False by (simp add: NamespaceId.expand)
  qed
  have enc_ne: "base32_EncodeToString (?p n1) \<noteq> base32_EncodeToString (?p n2)" if "n1 \<noteq> n2"
  proof
    assume "base32_EncodeToString (?p n1) = base32_EncodeToString (?p n2)"
    then have "base32_DecodeString (base32_EncodeToString (?p n1)) =
        base32_DecodeString (base32_EncodeToString (?p n2))" by simp
    then have "?p n1 = ?p n2" by (simp only: dec result.inject)
    with payload [OF that] show False by contradiction
  qed
  have addr: "Address a = base32_EncodeToString (?p n)"
    if "NewAddressFromNamespace addressNet n = Ok a" for n a
    using that by (auto simp: NewAddressFromNamespace_eq split: option.splits)
  show ?thesis
  proof (intro conjI impI allI)
    assume "n1 \<noteq> n2"
    then show "hex_DecodeString (NewAddressFromNamespace_a n1) \<noteq>
        hex_DecodeString (NewAddressFromNamespace_a n2)"
      using payload by (simp only: hex result.inject) simp
  next
    fix a1 a2
    assume "n1 \<noteq> n2" "NewAddressFromNamespace addressNet n1 = Ok a1"
      "NewAddressFromNamespace addressNet n2 = Ok a2"
    then show "Address a1 \<noteq> Address a2"
      using enc_ne addr by metis
  next
    fix a assume "NewAddressFromNamespace addressNet n1 = Ok a"
    then have "Address a = base32_EncodeToString (?p n1)" by (rule addr)
    then have "base32_DecodeString (Address a) = Ok (AliasAddress # PutUint64 (Id n1) @ replicate 16 0)"
      using dec by simp
    then show "\<exists>rest. base32_DecodeString (Address a) = Ok (AliasAddress # rest) \<and> length rest = 24"
      by (simp add: length_PutUint64)
  qed
qed

theorem NewAddressFromNamespace_injective_witness:
  "NamespaceId 0x8877665544332211 \<noteq> NamespaceId 0x8000000000000001 \<and>
   NewAddressFromNamespace [0x91 \<mapsto> 0x91] (NamespaceId 0x8877665544332211) =
     Ok \<lparr>Type = 0x91, Address = ''SEISEM2EKVTHPCAAAAAAAAAAAAAAAAAAAAAAAAAA''\<rparr> \<and>
   NewAddressFromNamespace [0x91 \<mapsto> 0x91] (NamespaceId 0x8000000000000001) =
     Ok \<lparr>Type = 0x91, Address = ''SEAQAAAAAAAABAAAAAAAAAAAAAAAAAAAAAAAAAAA''\<rparr> \<and>
   ''SEISEM2EKVTHPCAAAAAAAAAAAAAAAAAAAAAAAAAA'' \<noteq> ''SEAQAAAAAAAABAAAAAAAAAAAAAAAAAAAAAAAAAAA'' \<and>
   (\<exists>rest. base32_DecodeString ''SEISEM2EKVTHPCAAAAAAAAAAAAAAAAAAAAAAAAAA'' = Ok (AliasAddress # rest) \<and>
      length rest = 24)"
proof -
  have a1: "NewAddressFromNamespace [0x91 \<mapsto> 0x91] (NamespaceId 0x8877665544332211) =
     Ok \<lparr>Type = 0x91, Address = ''SEISEM2EKVTHPCAAAAAAAAAAAAAAAAAAAAAAAAAA''\<rparr>"
    by code_simp
  have a2: "NewAddressFromNamespace [0x91 \<mapsto> 0x91] (NamespaceId 0x8000000000000001) =
     Ok \<lparr>Type = 0x91, Address = ''SEAQAAAAAAAABAAAAAAAAAAAAAAAAAAAAAAAAAAA''\<rparr>"
    by code_simp
  have ne: "NamespaceId 0x8877665544332211 \<noteq> NamespaceId 0x8000000000000001"
    by simp
  show ?thesis
    using NewAddressFromNamespace_injective [of "NamespaceId 0x8877665544332211"
        "NamespaceId 0x8000000000000001" "[0x91 \<mapsto> 0x91]"] a1 a2 ne
    by simp
qed

section \<open>Parsing address text\<close>

lemma decode_no_panic: "decode olen src dbuf \<noteq> Panic p"
  by (induction olen src dbuf rule: decode.induct)
    (auto simp: Let_def split: option.splits result.splits)

lemma base32_DecodeString_no_panic: "base32_DecodeString s \<noteq> Panic p"
  by (simp add: base32_DecodeString_def Let_def decode_no_panic)

text \<open>
  C4, as the code has it. \<open>NewAddressFromRaw\<close> fails with the decoder's error whenever
  the text does not base32-decode, and with \<open>ErrInvalidAddress\<close> whenever the decoded
  bytes are not empty and the first of them is absent from the version table; it succeeds
  whenever the decoded bytes are not empty and the first of them is in the table. The
  number of decoded bytes plays no part: nothing compares it with the 25 bytes of an
  address.
\<close>

theorem NewAddressFromRaw_cases:
  "(\<forall>err. base32_DecodeString address = Err err \<longrightarrow> NewAddressFromRaw addressNet address = Err err) \<and>
   (\<forall>pH0 pH'. base32_DecodeString address = Ok (pH0 # pH') \<longrightarrow> addressNet pH0 = None \<longrightarrow>
      NewAddressFromRaw addressNet address = Err ErrInvalidAddress) \<and>
   (\<forall>pH0 pH' nType. base32_DecodeString address = Ok (pH0 # pH') \<longrightarrow> addressNet pH0 = Some nType \<longrightarrow>
      NewAddressFromRaw addressNet address = Ok (NewAddress address nType))"
  by (simp add: NewAddressFromRaw_def)

text \<open>
  The three cases at concrete texts, with a version table that knows the byte \<open>0x90\<close>
  only: a text of seven characters does not decode; \<open>TAAAAAAA\<close> decodes to bytes that
  start with \<open>0x98\<close>; a text of 40 characters that starts with \<open>S\<close> decodes to 25
  bytes that start with \<open>0x90\<close>.
\<close>

theorem NewAddressFromRaw_cases_witness:
  "base32_DecodeString ''SAAAAAA'' = Err (CorruptInputError 0) \<and>
   NewAddressFromRaw [0x90 \<mapsto> 0x90] ''SAAAAAA'' = Err (CorruptInputError 0) \<and>
   base32_DecodeString ''TAAAAAAA'' = Ok [0x98, 0, 0, 0, 0] \<and>
   NewAddressFromRaw [0x90 \<mapsto> 0x90] ''TAAAAAAA'' = Err ErrInvalidAddress \<and>
   base32_DecodeString ''SAAAAAAAAAAAAAAAAAAAAAAAAAAAAAAAAAAAAAAA'' = Ok (0x90 # replicate 24 0) \<and>
   NewAddressFromRaw [0x90 \<mapsto> 0x90] ''SAAAAAAAAAAAAAAAAAAAAAAAAAAAAAAAAAAAAAAA'' =
     Ok (NewAddress ''SAAAAAAAAAAAAAAAAAAAAAAAAAAAAAAAAAAAAAAA'' 0x90)"
proof -
  have d1: "base32_DecodeString ''SAAAAAA'' = Err (CorruptInputError 0)" by code_simp
  have d2: "base32_DecodeString ''TAAAAAAA'' = Ok [0x98, 0, 0, 0, 0]" by code_simp
  have d3: "base32_DecodeString ''SAAAAAAAAAAAAAAAAAAAAAAAAAAAAAAAAAAAAAAA'' = Ok (0x90 # replicate 24 0)"
    by code_simp
  have n2: "[0x90 \<mapsto> 0x90 :: byte] (0x98 :: byte) = None" by simp
  have n3: "[0x90 \<mapsto> 0x90 :: byte] (0x90 :: byte) = Some 0x90" by simp
  show ?thesis
    using NewAddressFromRaw_cases [of "''SAAAAAA''" "[0x90 \<mapsto> 0x90]"]
      NewAddressFromRaw_cases [of "''TAAAAAAA''" "[0x90 \<mapsto> 0x90]"]
      NewAddressFromRaw_cases [of "''SAAAAAAAAAAAAAAAAAAAAAAAAAAAAAAAAAAAAAAA''" "[0x90 \<mapsto> 0x90]"]
      d1 d2 d3 n2 n3
    by (simp del: fun_upd_apply)
qed

text \<open>
  C4 as stated fails: the text \<open>SAAAAAAA\<close> decodes to five bytes, which is not the length
  of an address, and \<open>NewAddressFromRaw\<close> accepts it.
\<close>

theorem NewAddressFromRaw_no_length_check:
  "base32_DecodeString ''SAAAAAAA'' = Ok [0x90, 0, 0, 0, 0] \<and>
   length [0x90, 0, 0, 0, 0 :: byte] \<noteq> 25 \<and>
   NewAddressFromRaw [0x90 \<mapsto> 0x90] ''SAAAAAAA'' = Ok \<lparr>Type = 0x90, Address = ''SAAAAAAA''\<rparr>"
  by code_simp

text \<open>
  C10. \<open>NewAddressFromRaw\<close> reads \<open>pH[0]\<close> without a check: it panics with an index out
  of range exactly when the text decodes to no byte at all, as the empty text does, and it
  returns no error there.
\<close>

theorem NewAddressFromRaw_panics:
  "(NewAddressFromRaw addressNet address = Panic p \<longleftrightarrow>
      p = IndexOutOfRange \<and> base32_DecodeString address = Ok []) \<and>
   NewAddressFromRaw addressNet '''' = Panic IndexOutOfRange \<and>
   NewAddressFromRaw addressNet '''' \<noteq> Err e"
proof -
  have empty: "base32_DecodeString '''' = Ok []"
    by (simp add: base32_DecodeString_def)
  have "NewAddressFromRaw addressNet address = Panic p \<longleftrightarrow>
      p = IndexOutOfRange \<and> base32_DecodeString address = Ok []"
    using base32_DecodeString_no_panic [of address]
    by (auto simp: NewAddressFromRaw_def split: result.splits list.splits option.splits)
  moreover have "NewAddressFromRaw addressNet '''' = Panic IndexOutOfRange"
    by (simp add: NewAddressFromRaw_def empty)
  ultimately show ?thesis by simp
qed

theorem NewAddressFromRaw_panics_witness:
  "NewAddressFromRaw [0x90 \<mapsto> 0x90] [CHR 0x0A] = Panic IndexOutOfRange \<and>
   NewAddressFromRaw [0x90 \<mapsto> 0x90] '''' = Panic IndexOutOfRange \<and>
   NewAddressFromRaw [0x90 \<mapsto> 0x90] '''' \<noteq> Err ErrInvalidAddress"
proof -
  have "base32_DecodeString [CHR 0x0A] = Ok []" by code_simp
  then show ?thesis
    using NewAddressFromRaw_panics [of "[0x90 \<mapsto> 0x90]" "[CHR 0x0A]" IndexOutOfRange ErrInvalidAddress]
    by simp
qed

section \<open>The checksum\<close>

text \<open>
  C6. For every byte slice \<open>b\<close>, the empty one included and treated like any other, for
  which the hash gives its digest of 32 bytes, \<open>GenerateChecksum\<close> succeeds and returns
  the first four bytes of the digest; it returns an error only when the hash does.
\<close>

theorem GenerateChecksum_first_bytes:
  "(\<forall>digest. HashesSha3_256 b = Ok digest \<longrightarrow> length digest = 32 \<longrightarrow>
      GenerateChecksum HashesSha3_256 b = Ok (take 4 digest) \<and> length (take 4 digest) = 4) \<and>
   (\<forall>digest. HashesSha3_256 [] = Ok digest \<longrightarrow> length digest = 32 \<longrightarrow>
      GenerateChecksum HashesSha3_256 [] = Ok (take 4 digest)) \<and>
   (\<forall>err. GenerateChecksum HashesSha3_256 b = Err err \<longleftrightarrow> HashesSha3_256 b = Err err)"
  by (auto simp: GenerateChecksum_def slice_def NUM_CHECKSUM_BYTES_def split: result.splits)

text \<open>The theorem with a stand-in for the hash: 32 bytes, each the length of the input.\<close>

theorem GenerateChecksum_first_bytes_witness:
  "GenerateChecksum (\<lambda>b. Ok (replicate 32 (of_nat (length b)))) [7, 8, 9] = Ok [3, 3, 3, 3] \<and>
   GenerateChecksum (\<lambda>b. Ok (replicate 32 (of_nat (length b)))) [] = Ok [0, 0, 0, 0]"
proof -
  let ?H = "\<lambda>b :: byte list. Ok (replicate 32 (of_nat (length b) :: byte))"
  have t: "replicate 4 x = [x, x, x, x]" for x :: byte
    by (simp add: numeral_eq_Suc)
  show ?thesis
    using GenerateChecksum_first_bytes [of ?H "[7, 8, 9]"] GenerateChecksum_first_bytes [of ?H "[]"]
    by (simp add: t)
qed

section \<open>Pretty printing\<close>

lemma Replace_filter: "Replace s (CHR ''-'') '''' = filter (\<lambda>c. c \<noteq> CHR ''-'') s"
  by (induction s) (simp_all add: Replace_def)

lemma Pretty_eq:
  assumes "36 \<le> length (Address ad)"
  shows "Pretty ad =
    Ok (take 6 (Address ad) @ ''-'' @ take 6 (drop 6 (Address ad)) @ ''-'' @
        take 6 (drop 12 (Address ad)) @ ''-'' @ take 6 (drop 18 (Address ad)) @ ''-'' @
        take 6 (drop 24 (Address ad)) @ ''-'' @ take 6 (drop 30 (Address ad)) @ ''-'' @
        drop (length (Address ad) - 4) (Address ad))"
proof -
  have idx: "[0..<6] = [0, 1, 2, 3, 4, 5]"
    by (simp add: upt_rec)
  show ?thesis
    using assms by (simp add: Pretty_def idx slice_def)
qed

lemma Pretty_panics: "length (Address ad) < 36 \<Longrightarrow> Pretty ad = Panic SliceBoundsOutOfRange"
proof -
  assume a: "length (Address ad) < 36"
  have idx: "[0..<6] = [0, 1, 2, 3, 4, 5]"
    by (simp add: upt_rec)
  show ?thesis
    using a by (simp add: Pretty_def idx slice_def)
qed

lemma blocks_join:
  assumes "length a = 40"
  shows "take 6 a @ take 6 (drop 6 a) @ take 6 (drop 12 a) @ take 6 (drop 18 a) @
         take 6 (drop 24 a) @ take 6 (drop 30 a) @ drop 36 a = a"
proof -
  have step: "\<And>m. take 6 (drop m a) @ drop (m + 6) a = drop m a"
    using append_take_drop_id [of 6 "drop _ a"] by (simp add: add.commute)
  have "take 6 (drop 30 a) @ drop 36 a = drop 30 a" using step [of 30] by simp
  moreover have "take 6 (drop 24 a) @ drop 30 a = drop 24 a" using step [of 24] by simp
  moreover have "take 6 (drop 18 a) @ drop 24 a = drop 18 a" using step [of 18] by simp
  moreover have "take 6 (drop 12 a) @ drop 18 a = drop 12 a" using step [of 12] by simp
  moreover have "take 6 (drop 6 a) @ drop 12 a = drop 6 a" using step [of 6] by simp
  ultimately show ?thesis by simp
qed

lemma filter_piece:
  "CHR ''-'' \<notin> set a \<Longrightarrow> filter (\<lambda>c. c \<noteq> CHR ''-'') (take n (drop m a)) = take n (drop m a)"
  by (rule filter_True) (auto dest!: in_set_takeD in_set_dropD)

lemma filter_tail:
  "CHR ''-'' \<notin> set a \<Longrightarrow> filter (\<lambda>c. c \<noteq> CHR ''-'') (drop m a) = drop m a"
  by (rule filter_True) (auto dest!: in_set_dropD)

lemma Pretty_undashed:
  assumes "length (Address ad) = 40" and "CHR ''-'' \<notin> set (Address ad)"
  shows "\<exists>pretty. Pretty ad = Ok pretty \<and> length pretty = 46 \<and>
           Replace pretty (CHR ''-'') '''' = Address ad"
proof -
  let ?a = "Address ad"
  let ?p = "take 6 ?a @ ''-'' @ take 6 (drop 6 ?a) @ ''-'' @
        take 6 (drop 12 ?a) @ ''-'' @ take 6 (drop 18 ?a) @ ''-'' @
        take 6 (drop 24 ?a) @ ''-'' @ take 6 (drop 30 ?a) @ ''-'' @ drop 36 ?a"
  have p: "Pretty ad = Ok ?p"
    using Pretty_eq [of ad] assms(1) by simp
  have len: "length ?p = 46" using assms(1) by simp
  have "filter (\<lambda>c. c \<noteq> CHR ''-'') ?p =
      take 6 ?a @ take 6 (drop 6 ?a) @ take 6 (drop 12 ?a) @ take 6 (drop 18 ?a) @
      take 6 (drop 24 ?a) @ take 6 (drop 30 ?a) @ drop 36 ?a"
    using filter_piece [OF assms(2)] filter_piece [OF assms(2), of _ 0] filter_tail [OF assms(2)]
    by simp
  then have "Replace ?p (CHR ''-'') '''' = ?a"
    using blocks_join [OF assms(1)] by (simp only: Replace_filter)
  with p len show ?thesis by blast
qed

text \<open>
  C8. For an address whose text has 40 characters, no dash and no lower-case letter,
  \<open>Pretty\<close> gives a text of 46 characters, and stripping its dashes and upper-casing it,
  as \<open>NewAddress\<close> does, gives back the text of the address.
\<close>

theorem Pretty_then_normalize:
  assumes "length (Address ad) = 40" and "CHR ''-'' \<notin> set (Address ad)"
    and "isASCII (Address ad)" and "ToUpper (Address ad) = Address ad"
  shows "\<exists>pretty. Pretty ad = Ok pretty \<and> length pretty = 46 \<and>
           ToUpper (Replace pretty (CHR ''-'') '''') = Address ad \<and>
           Address (NewAddress pretty networkType) = Address ad"
proof -
  from Pretty_undashed [OF assms(1,2)] obtain pretty where
    p: "Pretty ad = Ok pretty" "length pretty = 46" "Replace pretty (CHR ''-'') '''' = Address ad"
    by blast
  then have "ToUpper (Replace pretty (CHR ''-'') '''') = Address ad"
    using assms(4) by simp
  then show ?thesis
    using p by (simp add: NewAddress_def)
qed

theorem Pretty_then_normalize_witness:
  "length ''SAAAAAAAAAAAAAAAAAAAAAAAAAAAAAAAAAAAWXYZ'' = 40 \<and>
   Pretty \<lparr>Type = 0x90, Address = ''SAAAAAAAAAAAAAAAAAAAAAAAAAAAAAAAAAAAWXYZ''\<rparr> =
     Ok ''SAAAAA-AAAAAA-AAAAAA-AAAAAA-AAAAAA-AAAAAA-WXYZ'' \<and>
   ToUpper (Replace ''SAAAAA-AAAAAA-AAAAAA-AAAAAA-AAAAAA-AAAAAA-WXYZ'' (CHR ''-'') '''') =
     ''SAAAAAAAAAAAAAAAAAAAAAAAAAAAAAAAAAAAWXYZ'' \<and>
   Address (NewAddress ''SAAAAA-AAAAAA-AAAAAA-AAAAAA-AAAAAA-AAAAAA-WXYZ'' 0x90) =
     ''SAAAAAAAAAAAAAAAAAAAAAAAAAAAAAAAAAAAWXYZ''"
proof -
  let ?ad = "\<lparr>Type = 0x90 :: byte, Address = ''SAAAAAAAAAAAAAAAAAAAAAAAAAAAAAAAAAAAWXYZ''\<rparr>"
  have h1: "length (Address ?ad) = 40" by simp
  have h2: "CHR ''-'' \<notin> set (Address ?ad)" by simp
  have h3: "isASCII (Address ?ad)" by code_simp
  have h4: "ToUpper (Address ?ad) = Address ?ad" by code_simp
  have p: "Pretty ?ad = Ok ''SAAAAA-AAAAAA-AAAAAA-AAAAAA-AAAAAA-AAAAAA-WXYZ''" by code_simp
  show ?thesis
    using Pretty_then_normalize [OF h1 h2 h3 h4, of "0x90"] p by simp
qed

section \<open>Normalisation and decoding\<close>

lemma encodeChar_index_all:
  "list_all (\<lambda>n. encodeChar (of_nat n) = encodeStd ! n) [0..<32]"
  by code_simp

lemma length_encodeStd: "length encodeStd = 32"
  by (simp add: encodeStd_def)

lemma alphabet_encodeChar:
  assumes "c \<in> set encodeStd"
  obtains d where "c = encodeChar d"
proof -
  from assms obtain n where n: "n < 32" "c = encodeStd ! n"
    by (auto simp: in_set_conv_nth length_encodeStd)
  then have "c = encodeChar (of_nat n)"
    using all_below_upt [OF encodeChar_index_all, of n] by simp
  then show thesis by (rule that)
qed

lemma length_pack_eight: "length dbuf = 8 \<Longrightarrow> length (pack dbuf) = 5"
  by (simp add: pack_def)

lemma decode_alphabet:
  "list_all (\<lambda>c. c \<in> set encodeStd) s \<Longrightarrow> 8 dvd (length dbuf + length s) \<Longrightarrow> length dbuf < 8 \<Longrightarrow>
   \<exists>bs. decode olen s dbuf = Ok bs \<and> length bs = 5 * ((length dbuf + length s) div 8)"
proof (induction s arbitrary: dbuf)
  case Nil
  then have "dbuf = []" by (auto simp: dvd_def)
  then show ?case by simp
next
  case (Cons c s)
  from Cons.prems(1) obtain d where c: "c = encodeChar d"
    by (auto elim: alphabet_encodeChar)
  have rest: "list_all (\<lambda>c. c \<in> set encodeStd) s" using Cons.prems(1) by simp
  show ?case
  proof (cases "length dbuf = 7")
    case True
    then have dv: "8 dvd (length ([] :: byte list) + length s)"
      using Cons.prems(2) by (simp add: dvd_add_right_iff)
    from Cons.IH [OF rest dv] obtain bs where
      bs: "decode olen s [] = Ok bs" "length bs = 5 * (length s div 8)"
      by auto
    have "length (pack (dbuf @ [d AND 31])) = 5"
      using True by (simp add: length_pack_eight)
    moreover have "(length dbuf + length (c # s)) div 8 = Suc (length s div 8)"
      using True by simp
    ultimately show ?thesis
      using bs True by (simp add: c decode_encodeChar del: decode.simps)
  next
    case False
    then have lt: "length (dbuf @ [d AND 31]) < 8" using Cons.prems(3) by simp
    have dv: "8 dvd (length (dbuf @ [d AND 31]) + length s)" using Cons.prems(2) by simp
    from Cons.IH [OF rest dv lt] show ?thesis
      using False by (simp add: c decode_encodeChar del: decode.simps)
  qed
qed

lemma canonical_plain: "canonical c \<Longrightarrow> list_all plain c"
  by (auto simp: canonical_def list_all_iff elim!: alphabet_encodeChar intro: plain_encodeChar)

lemma canonical_decodes:
  assumes "canonical c"
  obtains pH0 pH' where "base32_DecodeString c = Ok (pH0 # pH')" and "length pH' = 24"
proof -
  from assms have len: "length c = 40" and al: "list_all (\<lambda>c. c \<in> set encodeStd) c"
    by (simp_all add: canonical_def)
  have "8 dvd (length ([] :: byte list) + length c)" using len by simp
  from decode_alphabet [OF al this, of "length c"] obtain bs where
    bs: "decode (length c) c [] = Ok bs" "length bs = 25"
    using len by auto
  then obtain pH0 pH' where "bs = pH0 # pH'" "length pH' = 24"
    by (cases bs) auto
  with bs have "base32_DecodeString c = Ok (pH0 # pH')"
    using canonical_plain [OF assms] by (simp add: base32_DecodeString_def filter_plain)
  then show thesis using \<open>length pH' = 24\<close> by (rule that)
qed

lemma decode_dash:
  "decode olen (CHR ''-'' # rest) dbuf = Err (CorruptInputError (olen - length rest - 1))"
proof -
  have "decodeMap (CHR ''-'') = None" by code_simp
  moreover have "CHR ''-'' \<noteq> StdPadding" by code_simp
  ultimately show ?thesis by simp
qed

lemma decode_dash_at_six:
  assumes "list_all (\<lambda>c. c \<in> set encodeStd) pre" and "length pre = 6"
  shows "decode olen (pre @ CHR ''-'' # rest) [] = Err (CorruptInputError (olen - length rest - 1))"
proof -
  from assms obtain c0 c1 c2 c3 c4 c5 where pre: "pre = [c0, c1, c2, c3, c4, c5]"
    by (auto simp: length_Suc_conv numeral_eq_Suc)
  with assms(1) obtain d0 d1 d2 d3 d4 d5 where
    "c0 = encodeChar d0" "c1 = encodeChar d1" "c2 = encodeChar d2"
    "c3 = encodeChar d3" "c4 = encodeChar d4" "c5 = encodeChar d5"
    by (auto elim!: alphabet_encodeChar)
  then show ?thesis
    unfolding pre by (simp add: decode_encodeChar decode_dash del: decode.simps)
qed

text \<open>
  The raw and the dash-grouped form of a canonical text: what \<open>NewAddress\<close> and
  \<open>NewAddressFromRaw\<close> make of them.
\<close>

lemma canonical_raw_and_pretty:
  assumes "canonical c"
  shows "\<exists>pretty pH0 pH'.
    Pretty \<lparr>Type = t, Address = c\<rparr> = Ok pretty \<and>
    NewAddress pretty nType = \<lparr>Type = nType, Address = c\<rparr> \<and>
    NewAddress c nType = \<lparr>Type = nType, Address = c\<rparr> \<and>
    base32_DecodeString c = Ok (pH0 # pH') \<and>
    NewAddressFromRaw addressNet c =
      (case addressNet pH0 of
         Some nt \<Rightarrow> Ok \<lparr>Type = nt, Address = c\<rparr>
       | None \<Rightarrow> Err ErrInvalidAddress) \<and>
    NewAddressFromRaw addressNet pretty = Err (CorruptInputError 6)"
proof -
  let ?ad = "\<lparr>Type = t, Address = c\<rparr>"
  let ?rest = "take 6 (drop 6 c) @ ''-'' @ take 6 (drop 12 c) @ ''-'' @ take 6 (drop 18 c) @ ''-'' @
        take 6 (drop 24 c) @ ''-'' @ take 6 (drop 30 c) @ ''-'' @ drop 36 c"
  let ?p = "take 6 c @ CHR ''-'' # ?rest"
  from assms have len: "length c = 40" and al: "list_all (\<lambda>x. x \<in> set encodeStd) c"
    by (simp_all add: canonical_def)
  have pl: "list_all plain c" using assms by (rule canonical_plain)
  have nodash: "CHR ''-'' \<notin> set c"
    using pl by (auto simp: list_all_iff plain_def)
  have pretty: "Pretty ?ad = Ok ?p"
    using Pretty_eq [of ?ad] len by simp
  from Pretty_undashed [of ?ad] len nodash pretty
  have undashed: "Replace ?p (CHR ''-'') '''' = c" by simp
  have same: "NewAddress ?p nType = \<lparr>Type = nType, Address = c\<rparr>"
    using undashed ToUpper_plain [OF pl] by (simp add: NewAddress_def)
  have raw: "NewAddress c nType = \<lparr>Type = nType, Address = c\<rparr>" for nType
    using pl by (rule NewAddress_plain)
  from canonical_decodes [OF assms] obtain pH0 pH' where
    dec: "base32_DecodeString c = Ok (pH0 # pH')" by blast
  have accepted: "NewAddressFromRaw addressNet c =
      (case addressNet pH0 of
         Some nt \<Rightarrow> Ok \<lparr>Type = nt, Address = c\<rparr>
       | None \<Rightarrow> Err ErrInvalidAddress)"
    by (simp add: NewAddressFromRaw_def dec raw split: option.splits)
  have keep: "filter (\<lambda>x. x \<noteq> CHR 0x0D \<and> x \<noteq> CHR 0x0A) ?p = ?p"
  proof (rule filter_True, rule ballI)
    fix x assume "x \<in> set ?p"
    then have "x \<in> set c \<or> x = CHR ''-''"
      by (auto dest: in_set_takeD in_set_dropD)
    then show "x \<noteq> CHR 0x0D \<and> x \<noteq> CHR 0x0A"
      using pl by (auto simp: list_all_iff plain_def)
  qed
  have six: "list_all (\<lambda>x. x \<in> set encodeStd) (take 6 c)" "length (take 6 c) = 6"
    using al len by (auto simp: list_all_iff dest: in_set_takeD)
  have "length ?p = 46" "length ?rest = 39" using len by simp_all
  then have "decode (length ?p) ?p [] = Err (CorruptInputError 6)"
    using decode_dash_at_six [OF six, of "length ?p" ?rest] by simp
  then have rejected: "NewAddressFromRaw addressNet ?p = Err (CorruptInputError 6)"
    using keep by (simp add: NewAddressFromRaw_def base32_DecodeString_def del: decode.simps)
  from pretty same raw dec accepted rejected show ?thesis by blast
qed

text \<open>
  Letter case. A byte that \<open>ToUpper\<close> changes is a lower-case letter: it is outside the
  base32 alphabet, and the decoder stops at the first byte outside the alphabet that is
  not padding.
\<close>

lemma lower_all:
  "list_all (\<lambda>n. decodeMap (char_of n) = None \<and> char_of n \<noteq> StdPadding \<and>
      toUpperByte (char_of n) \<noteq> CHR ''-'') [97..<123]"
  by code_simp

lemma toUpperByte_changes:
  assumes "toUpperByte x \<noteq> x"
  shows "decodeMap x = None \<and> x \<noteq> StdPadding \<and> toUpperByte x \<noteq> CHR ''-'' \<and>
         x \<noteq> CHR ''-'' \<and> x \<noteq> CHR 0x0D \<and> x \<noteq> CHR 0x0A"
proof -
  let ?n = "of_char x :: nat"
  from assms have n: "97 \<le> ?n" "?n < 123"
    by (auto simp: toUpperByte_def Let_def split: if_splits)
  then have "?n \<in> {97..<123}" by simp
  with lower_all have "decodeMap (char_of ?n) = None \<and> char_of ?n \<noteq> StdPadding \<and>
      toUpperByte (char_of ?n) \<noteq> CHR ''-''"
    unfolding list_all_iff set_upt by blast
  moreover have "x \<noteq> CHR ''-''" "x \<noteq> CHR 0x0D" "x \<noteq> CHR 0x0A"
    using n by auto
  ultimately show ?thesis by simp
qed

lemma char_cases:
  "(toUpperByte x = CHR ''-'' \<longleftrightarrow> x = CHR ''-'') \<and>
   (toUpperByte x \<in> set encodeStd \<longrightarrow>
      x \<noteq> CHR 0x0D \<and> x \<noteq> CHR 0x0A \<and>
      (toUpperByte x \<noteq> x \<longrightarrow> decodeMap x = None \<and> x \<noteq> StdPadding))"
proof (cases "toUpperByte x = x")
  case True
  have "x \<in> set encodeStd \<Longrightarrow> x \<noteq> CHR 0x0D \<and> x \<noteq> CHR 0x0A"
    using plain_encodeChar by (auto elim!: alphabet_encodeChar simp: plain_def)
  with True show ?thesis by auto
next
  case False
  from toUpperByte_changes [OF False] False show ?thesis by auto
qed

lemma ToUpper_Replace:
  "ToUpper (Replace s (CHR ''-'') '''') = Replace (ToUpper s) (CHR ''-'') ''''"
  by (induction s) (simp_all add: ToUpper_def Replace_def char_cases)

lemma decode_stops:
  assumes "list_all (\<lambda>c. c \<in> set encodeStd) pre" and "decodeMap x = None" and "x \<noteq> StdPadding"
  shows "decode olen (pre @ x # rest) dbuf = Err (CorruptInputError (olen - length rest - 1))"
  using assms(1)
proof (induction pre arbitrary: dbuf)
  case Nil
  show ?case using assms(2,3) by simp
next
  case (Cons c pre)
  from Cons.prems obtain d where c: "c = encodeChar d"
    by (auto elim: alphabet_encodeChar)
  from Cons.prems have rest: "list_all (\<lambda>c. c \<in> set encodeStd) pre" by simp
  show ?case
    using Cons.IH [OF rest]
    by (simp add: c decode_encodeChar del: decode.simps)
qed

lemma spelling_rejected:
  assumes "canonical c" and "ToUpper s = c" and "s \<noteq> c"
  shows "\<exists>k. base32_DecodeString s = Err (CorruptInputError k)"
proof -
  from assms(1) have al: "list_all (\<lambda>x. x \<in> set encodeStd) c"
    by (simp add: canonical_def)
  have len: "length s = length c" using assms(2) by (auto simp: ToUpper_def)
  from same_length_different [OF assms(3) len] obtain pre x r1 y r2 where
    d: "x \<noteq> y" "s = pre @ [x] @ r1" "c = pre @ [y] @ r2"
    by blast
  from assms(2) d have up: "toUpperByte x = y"
    by (simp add: ToUpper_def)
  have y: "y \<in> set encodeStd" and pre: "list_all (\<lambda>x. x \<in> set encodeStd) pre"
    using al d(3) by simp_all
  from char_cases [of x] up y d(1) have x: "decodeMap x = None" "x \<noteq> StdPadding"
    by auto
  have keep: "filter (\<lambda>z. z \<noteq> CHR 0x0D \<and> z \<noteq> CHR 0x0A) s = s"
  proof (rule filter_True, rule ballI)
    fix z assume "z \<in> set s"
    then have "toUpperByte z \<in> set c" using assms(2) by (auto simp: ToUpper_def)
    then have "toUpperByte z \<in> set encodeStd" using al by (simp add: list_all_iff)
    then show "z \<noteq> CHR 0x0D \<and> z \<noteq> CHR 0x0A" using char_cases [of z] by blast
  qed
  have "decode (length s) s [] = Err (CorruptInputError (length s - length r1 - 1))"
    using decode_stops [OF pre x, of "length s" r1 "[]"] d(2) by simp
  then show ?thesis
    using keep by (simp add: base32_DecodeString_def del: decode.simps)
qed

lemma spelling_normalized:
  assumes "list_all plain c" and "Replace p (CHR ''-'') '''' = c"
    and "ToUpper s = c \<or> ToUpper s = p"
  shows "NewAddress s nType = \<lparr>Type = nType, Address = c\<rparr>"
proof -
  have "Replace c (CHR ''-'') '''' = c" using assms(1) by (rule Replace_plain)
  with assms(2,3) have "Replace (ToUpper s) (CHR ''-'') '''' = c" by auto
  then show ?thesis by (simp add: NewAddress_def ToUpper_Replace)
qed

text \<open>
  C5, as the code has it. \<open>NewAddress\<close> normalises its text, dashes stripped and letters
  upper-cased: for every valid address the raw form, the dash-grouped form and every
  spelling of either in other letter case give the same \<open>Address\<close> through \<open>NewAddress\<close>.
  \<open>NewAddressFromRaw\<close> decodes the text as it is given and normalises afterwards: for
  every valid address it accepts the raw form, with the network type of the version table,
  and it rejects the dash-grouped form, with the decoder's error at the first dash, and
  every spelling of the raw form that has a lower-case letter, with the decoder's error.
\<close>

theorem NewAddressFromRaw_decodes_before_normalizing:
  assumes "validAddress addressNet c"
  shows "\<exists>pretty pH0 pH' nType.
    base32_DecodeString c = Ok (pH0 # pH') \<and> addressNet pH0 = Some nType \<and>
    Pretty \<lparr>Type = t, Address = c\<rparr> = Ok pretty \<and>
    NewAddressFromRaw addressNet c = Ok \<lparr>Type = nType, Address = c\<rparr> \<and>
    NewAddressFromRaw addressNet pretty = Err (CorruptInputError 6) \<and>
    (\<forall>s. ToUpper s = c \<and> s \<noteq> c \<longrightarrow>
       (\<exists>k. NewAddressFromRaw addressNet s = Err (CorruptInputError k))) \<and>
    NewAddress c nType = \<lparr>Type = nType, Address = c\<rparr> \<and>
    NewAddress pretty nType = \<lparr>Type = nType, Address = c\<rparr> \<and>
    (\<forall>s. ToUpper s = c \<or> ToUpper s = pretty \<longrightarrow>
       NewAddress s nType = \<lparr>Type = nType, Address = c\<rparr>)"
proof -
  from assms have can: "canonical c" by (simp add: validAddress_def)
  from assms obtain pH0 pH' nType where
    dec: "base32_DecodeString c = Ok (pH0 # pH')" and net: "addressNet pH0 = Some nType"
    by (auto simp: validAddress_def split: result.splits list.splits)
  from canonical_raw_and_pretty [OF can, of t nType addressNet]
  obtain pretty q0 q' where
    p: "Pretty \<lparr>Type = t, Address = c\<rparr> = Ok pretty"
      "NewAddress pretty nType = \<lparr>Type = nType, Address = c\<rparr>"
      "NewAddress c nType = \<lparr>Type = nType, Address = c\<rparr>"
      "base32_DecodeString c = Ok (q0 # q')"
      "NewAddressFromRaw addressNet c =
        (case addressNet q0 of
           Some nt \<Rightarrow> Ok \<lparr>Type = nt, Address = c\<rparr>
         | None \<Rightarrow> Err ErrInvalidAddress)"
      "NewAddressFromRaw addressNet pretty = Err (CorruptInputError 6)"
    by blast
  from p(4) dec have "q0 = pH0" by simp
  with p(5) net have raw: "NewAddressFromRaw addressNet c = Ok \<lparr>Type = nType, Address = c\<rparr>"
    by simp
  have pl: "list_all plain c" using can by (rule canonical_plain)
  have nodash: "CHR ''-'' \<notin> set c"
    using pl by (auto simp: list_all_iff plain_def)
  have len: "length c = 40" using can by (simp add: canonical_def)
  from Pretty_undashed [of "\<lparr>Type = t, Address = c\<rparr>"] len nodash p(1)
  have undashed: "Replace pretty (CHR ''-'') '''' = c" by simp
  have lower: "\<forall>s. ToUpper s = c \<and> s \<noteq> c \<longrightarrow>
       (\<exists>k. NewAddressFromRaw addressNet s = Err (CorruptInputError k))"
  proof (intro allI impI)
    fix s assume s: "ToUpper s = c \<and> s \<noteq> c"
    with spelling_rejected [OF can, of s] obtain k where
      "base32_DecodeString s = Err (CorruptInputError k)" by blast
    then have "NewAddressFromRaw addressNet s = Err (CorruptInputError k)"
      by (simp add: NewAddressFromRaw_def)
    then show "\<exists>k. NewAddressFromRaw addressNet s = Err (CorruptInputError k)" ..
  qed
  have norm: "\<forall>s. ToUpper s = c \<or> ToUpper s = pretty \<longrightarrow>
       NewAddress s nType = \<lparr>Type = nType, Address = c\<rparr>"
    using spelling_normalized [OF pl undashed] by blast
  from dec net p(1) raw p(6) lower p(3) p(2) norm show ?thesis by blast
qed

text \<open>
  The theorem at an address text that starts with \<open>S\<close>, whose version byte \<open>0x90\<close> the
  table knows, with a lower-case spelling of its raw form and a mixed-case spelling of its
  dash-grouped form.
\<close>

theorem NewAddressFromRaw_decodes_before_normalizing_witness:
  "validAddress [0x90 \<mapsto> 0x90] ''SAAAAAAAAAAAAAAAAAAAAAAAAAAAAAAAAAAAWXYZ'' \<and>
   Pretty \<lparr>Type = 0x90, Address = ''SAAAAAAAAAAAAAAAAAAAAAAAAAAAAAAAAAAAWXYZ''\<rparr> =
     Ok ''SAAAAA-AAAAAA-AAAAAA-AAAAAA-AAAAAA-AAAAAA-WXYZ'' \<and>
   NewAddressFromRaw [0x90 \<mapsto> 0x90] ''SAAAAAAAAAAAAAAAAAAAAAAAAAAAAAAAAAAAWXYZ'' =
     Ok \<lparr>Type = 0x90, Address = ''SAAAAAAAAAAAAAAAAAAAAAAAAAAAAAAAAAAAWXYZ''\<rparr> \<and>
   NewAddressFromRaw [0x90 \<mapsto> 0x90] ''SAAAAA-AAAAAA-AAAAAA-AAAAAA-AAAAAA-AAAAAA-WXYZ'' =
     Err (CorruptInputError 6) \<and>
   (\<exists>k. NewAddressFromRaw [0x90 \<mapsto> 0x90] ''SAAAAAAAAAAAAAAAAAAAAAAAAAAAAAAAAAAAwxyz'' =
     Err (CorruptInputError k)) \<and>
   NewAddress ''saaaaa-AAAAAA-aaaaaa-AAAAAA-AAAAAA-AAAAAA-wxyz'' 0x90 =
     \<lparr>Type = 0x90, Address = ''SAAAAAAAAAAAAAAAAAAAAAAAAAAAAAAAAAAAWXYZ''\<rparr>"
proof -
  let ?c = "''SAAAAAAAAAAAAAAAAAAAAAAAAAAAAAAAAAAAWXYZ''"
  let ?p = "''SAAAAA-AAAAAA-AAAAAA-AAAAAA-AAAAAA-AAAAAA-WXYZ''"
  let ?net = "[0x90 \<mapsto> 0x90 :: byte] :: byte \<rightharpoonup> byte"
  have h: "validAddress ?net ?c" by code_simp
  have pr: "Pretty \<lparr>Type = 0x90, Address = ?c\<rparr> = Ok ?p" by code_simp
  have dec: "(case base32_DecodeString ?c of Ok (pH0 # pH') \<Rightarrow> pH0 = 0x90 | _ \<Rightarrow> False)"
    by code_simp
  have lo: "ToUpper ''SAAAAAAAAAAAAAAAAAAAAAAAAAAAAAAAAAAAwxyz'' = ?c \<and>
      ''SAAAAAAAAAAAAAAAAAAAAAAAAAAAAAAAAAAAwxyz'' \<noteq> ?c" by code_simp
  have lp: "ToUpper ''saaaaa-AAAAAA-aaaaaa-AAAAAA-AAAAAA-AAAAAA-wxyz'' = ?p" by code_simp
  from NewAddressFromRaw_decodes_before_normalizing [OF h, of "0x90"] obtain pretty pH0 pH' nType where
    r: "base32_DecodeString ?c = Ok (pH0 # pH')" "?net pH0 = Some nType"
      "Pretty \<lparr>Type = 0x90, Address = ?c\<rparr> = Ok pretty"
      "NewAddressFromRaw ?net ?c = Ok \<lparr>Type = nType, Address = ?c\<rparr>"
      "NewAddressFromRaw ?net pretty = Err (CorruptInputError 6)"
      "\<forall>s. ToUpper s = ?c \<and> s \<noteq> ?c \<longrightarrow>
         (\<exists>k. NewAddressFromRaw ?net s = Err (CorruptInputError k))"
      "\<forall>s. ToUpper s = ?c \<or> ToUpper s = pretty \<longrightarrow>
         NewAddress s nType = \<lparr>Type = nType, Address = ?c\<rparr>"
    by blast
  from r(1) dec have "pH0 = 0x90" by simp
  with r(2) have nt: "nType = 0x90" by simp
  from r(3) pr have pp: "pretty = ?p" by simp
  show ?thesis
    using h pr r(4) r(5) r(6) r(7) lo lp unfolding nt pp by blast
qed

text \<open>
  C5 as stated fails: \<open>NewAddressFromRaw\<close> accepts a raw address text and rejects its
  dash-grouped form and its lower-case form.
\<close>

theorem NewAddressFromRaw_rejects_pretty:
  "Pretty \<lparr>Type = 0x90, Address = ''SAAAAAAAAAAAAAAAAAAAAAAAAAAAAAAAAAAAAAAA''\<rparr> =
     Ok ''SAAAAA-AAAAAA-AAAAAA-AAAAAA-AAAAAA-AAAAAA-AAAA'' \<and>
   NewAddressFromRaw [0x90 \<mapsto> 0x90] ''SAAAAAAAAAAAAAAAAAAAAAAAAAAAAAAAAAAAAAAA'' =
     Ok \<lparr>Type = 0x90, Address = ''SAAAAAAAAAAAAAAAAAAAAAAAAAAAAAAAAAAAAAAA''\<rparr> \<and>
   NewAddressFromRaw [0x90 \<mapsto> 0x90] ''SAAAAA-AAAAAA-AAAAAA-AAAAAA-AAAAAA-AAAAAA-AAAA'' =
     Err (CorruptInputError 6) \<and>
   NewAddressFromRaw [0x90 \<mapsto> 0x90] ''saaaaaaaaaaaaaaaaaaaaaaaaaaaaaaaaaaaaaaa'' =
     Err (CorruptInputError 0)"
  by code_simp

end
